theory Spec2Isabelle
  imports Complex_Main "HOL-Library.Log_Nat"
begin

section \<open>JavaScript numbers\<close>

text \<open>
  Every number of the plugin is a JavaScript number, an IEEE 754 binary64 value. A finite
  number is modelled by the rational it denotes, and an arithmetic operator by the exact
  operation followed by rounding to 53 significant bits, ties to even, which is what
  IEEE 754 prescribes for \<open>+\<close>, \<open>-\<close> and \<open>/\<close>. The exponent is not bounded, so overflow
  to infinity and subnormal results are outside the model, as are NaN and the sign of zero.
\<close>

type_synonym number = rat

definition ilog2 :: "rat \<Rightarrow> int" where
  \<comment> \<open>for \<open>0 < a\<close>, the exponent \<open>k\<close> with \<open>2 powi k \<le> a < 2 powi (k + 1)\<close>\<close>
  "ilog2 a = (if 1 \<le> a then bitlen \<lfloor>a\<rfloor> - 1 else - bitlen (\<lceil>1 / a\<rceil> - 1))"

definition roundTiesToEven :: "rat \<Rightarrow> int" where
  "roundTiesToEven y =
     (let f = \<lfloor>y\<rfloor>; d = y - of_int f
      in if d < 1 / 2 then f
         else if 1 / 2 < d then f + 1
         else if even f then f else f + 1)"

definition fl :: "rat \<Rightarrow> number" where
  \<comment> \<open>the binary64 value nearest to \<open>x\<close>\<close>
  "fl x = (if x = 0 then 0
           else let e = ilog2 \<bar>x\<bar> - 52
                in of_int (roundTiesToEven (x * 2 powi (- e))) * 2 powi e)"

definition fadd :: "number \<Rightarrow> number \<Rightarrow> number" where
  "fadd x y = fl (x + y)"

definition fsub :: "number \<Rightarrow> number \<Rightarrow> number" where
  "fsub x y = fl (x - y)"

definition fdiv :: "number \<Rightarrow> number \<Rightarrow> number" where
  "fdiv x y = fl (x / y)"


section \<open>Data\<close>

text \<open>
  The plugin throws two kinds of values: the strings \<open>"Not enough colors given."\<close>,
  \<open>"Invalid percentage values"\<close> and \<open>"Invalid color component"\<close>, and the
  \<open>TypeError\<close> the engine raises for a property read on \<open>undefined\<close>.
\<close>

datatype error =
    Not_enough_colors_given
  | Invalid_percentage_values
  | Invalid_color_component
  | TypeError

text \<open>The settings object: \<open>$.fn.piechart.defaults\<close> merged with the caller's options.\<close>

record options =
  borderColor :: string
  borderWidth :: number
  chartClass :: string
  chartSide :: string
  colors :: "string list"
  height :: number
  labels :: "string list"
  legendClass :: string
  percentages :: "number list"
  showLegend :: bool
  title :: string
  titleClass :: string
  titleJustify :: string

definition EASTER :: "string list" where
  "EASTER = [''#F7F7B1'', ''#BDDA5D'', ''#DAEFF1'', ''#D1C4DD'', ''#FFE4E5'',
             ''#B3DBE3'', ''#E5F7B1'', ''#FFCACC'', ''#E8E2EE'', ''#C9E7F9'']"


definition defaults :: options where
  "defaults = \<lparr> borderColor = ''#fff'', borderWidth = 0, chartClass = '''',
       chartSide = ''left'', colors = EASTER, height = 300, labels = ['''', ''''],
       legendClass = '''', percentages = [75, 25], showLegend = False, title = '''',
       titleClass = '''', titleJustify = ''left'' \<rparr>"

text \<open>The \<open>radians\<close> object of a piece: two fractions of a full turn.\<close>

record radians =
  start :: number
  endp :: number

record piece =
  color :: string
  radians :: radians
  pieceBorderWidth :: number
  pieceBorderColor :: string

text \<open>
  A label of the legend is a DOM node of its own: \<open>node_id\<close> is its position among the
  labels, which tells apart two labels of equal text. \<open>swatch\<close> is the background the
  colour box got; it is \<open>None\<close> when \<open>options.colors[i]\<close> was \<open>undefined\<close>.
\<close>

record label_node =
  node_id :: nat
  caption :: string
  swatch :: "string option"

record legend_entry =
  label :: label_node
  colorPart :: "string option"

record legend =
  item :: "string \<rightharpoonup> legend_entry"

text \<open>The children of the container element, in document order.\<close>

datatype dom_node =
    CanvasNode
  | HeaderNode string string
  | LegendNode "label_node list"

text \<open>
  What a piece asks of the canvas context. The angles stay fractions of a turn: the factor
  \<open>2 * Math.PI\<close> and the pixel coordinates of the centre are the canvas's business.
\<close>

datatype canvas_op =
    BeginPath
  | MoveToCenter
  | Arc number number
  | Fill string
  | LineToCenter
  | Stroke string number

text \<open>The calls of \<open>PieChart.addEffects\<close> and \<open>PieChart.clearEffects\<close>, in order.\<close>

datatype effect =
    AddEffects label_node string
  | ClearEffects label_node

text \<open>
  A \<open>PieChart\<close> object together with what it owns or writes to: the container element, the
  canvas, the shared settings object and the styles of the labels. \<open>prevPiece\<close> and
  \<open>currPiece\<close> hold a label or the empty string, which is \<open>None\<close> here.
\<close>

record piechart =
  pieces :: "piece list"
  element :: "dom_node list"
  options :: options
  legend :: "legend option"
  canvas :: "canvas_op list"
  mousemove :: bool
  mouseleave :: bool
  prevPiece :: "label_node option"
  currPiece :: "label_node option"
  effects :: "effect list"

text \<open>
  The pixel \<open>getImageData(x, y, 1, 1).data\<close>: red, green, blue, alpha. The browser gives
  components from 0 to 255, and transparent black outside the canvas.
\<close>

type_synonym pixel = "nat \<times> nat \<times> nat \<times> nat"

record pointer_event =
  clientX :: int
  clientY :: int

record page =
  body_scrollLeft :: int
  doc_scrollLeft :: int
  body_scrollTop :: int
  doc_scrollTop :: int
  offset_left :: rat
  offset_top :: rat
  getImageData :: "int \<Rightarrow> int \<Rightarrow> pixel"


section \<open>Strings\<close>

definition lowerChar :: "char \<Rightarrow> char" where
  "lowerChar c =
     (let n = of_char c :: nat in if 65 \<le> n \<and> n \<le> 90 then char_of (n + 32) else c)"

definition toLowerCase :: "string \<Rightarrow> string" where
  "toLowerCase s = map lowerChar s"

definition hexDigit :: "nat \<Rightarrow> char" where
  "hexDigit d = ''0123456789abcdef'' ! d"

text \<open>\<open>Number.prototype.toString(16)\<close> on a natural number.\<close>

function toString16 :: "nat \<Rightarrow> string" where
  "toString16 n =
     (if n < 16 then [hexDigit n] else toString16 (n div 16) @ [hexDigit (n mod 16)])"
  by pat_completeness auto
termination
  by (relation "measure id") auto

declare toString16.simps [simp del]

text \<open>\<open>s.slice(-k)\<close>: the last \<open>k\<close> characters, or all of \<open>s\<close> when it is shorter.\<close>

definition slice_last :: "nat \<Rightarrow> string \<Rightarrow> string" where
  "slice_last k s = drop (length s - k) s"

text \<open>
  \<open>((r << 16) | (g << 8) | b).toString(16)\<close>. JavaScript shifts 32-bit integers; past the
  guard the components are below \<open>2 ^ 8\<close> and the result below \<open>2 ^ 24\<close>, so nothing
  wraps, and natural numbers give the same value.
\<close>

definition rgbToHex :: "nat \<Rightarrow> nat \<Rightarrow> nat \<Rightarrow> error + string" where
  "rgbToHex r g b =
     (if 255 < r \<or> 255 < g \<or> 255 < b then Inl Invalid_color_component
      else Inr (toString16 (or (or (push_bit 16 r) (push_bit 8 g)) b)))"

text \<open>
  The canvas is the browser's. Of its colour parsing only the six-digit form \<open>#rrggbb\<close>
  is written down, as CSS defines it: a fill with that colour paints opaque pixels whose
  red, green and blue components are the three pairs of hexadecimal digits.
\<close>

definition hexValue :: "char \<Rightarrow> nat option" where
  "hexValue c =
     (let n = of_char c :: nat
      in if 48 \<le> n \<and> n \<le> 57 then Some (n - 48)
         else if 97 \<le> n \<and> n \<le> 102 then Some (n - 87)
         else if 65 \<le> n \<and> n \<le> 70 then Some (n - 55)
         else None)"

fun hexPair :: "char \<Rightarrow> char \<Rightarrow> nat option" where
  "hexPair c d =
     (case (hexValue c, hexValue d) of
        (Some x, Some y) \<Rightarrow> Some (16 * x + y)
      | _ \<Rightarrow> None)"

fun fillPixel :: "string \<Rightarrow> pixel option" where
  "fillPixel [h, r1, r2, g1, g2, b1, b2] =
     (if h = CHR ''#'' then
        (case (hexPair r1 r2, hexPair g1 g2, hexPair b1 b2) of
           (Some r, Some g, Some b) \<Rightarrow> Some (r, g, b, 255)
         | _ \<Rightarrow> None)
      else None)"
| "fillPixel _ = None"


section \<open>Piece\<close>

definition draw :: "piece \<Rightarrow> canvas_op list \<Rightarrow> canvas_op list" where
  "draw p ctx =
     (let filled = ctx @ [BeginPath, MoveToCenter,
                          Arc (start (radians p)) (endp (radians p)), Fill (color p)]
      in if pieceBorderWidth p \<noteq> 0
         then filled @ [LineToCenter, Stroke (pieceBorderColor p) (pieceBorderWidth p)]
         else filled)"


section \<open>Header and Legend\<close>

definition Header :: "dom_node list \<Rightarrow> options \<Rightarrow> dom_node list" where
  "Header elem opts = HeaderNode (title opts) (titleJustify opts) # elem"

text \<open>
  The loop of \<open>Legend\<close> over \<open>options.labels\<close>. The label is appended to the legend before
  \<open>options.colors[i].toLowerCase()\<close> is evaluated, which throws when there are fewer
  colours than labels.
\<close>

function Legend_labels ::
  "string list \<Rightarrow> string list \<Rightarrow> nat \<Rightarrow> (string \<rightharpoonup> legend_entry) \<Rightarrow> label_node list
     \<Rightarrow> error option \<times> (string \<rightharpoonup> legend_entry) \<times> label_node list" where
  "Legend_labels cols labs i itm nodes =
     (if i < length labs then
        let colorPart = (if i < length cols then Some (cols ! i) else None);
            lbl = \<lparr> node_id = i, caption = labs ! i, swatch = colorPart \<rparr>;
            nodes' = nodes @ [lbl]
        in if i < length cols
           then Legend_labels cols labs (Suc i)
                  (itm(toLowerCase (cols ! i) \<mapsto> \<lparr> label = lbl, colorPart = colorPart \<rparr>))
                  nodes'
           else (Some TypeError, itm, nodes')
      else (None, itm, nodes))"
  by pat_completeness auto
termination
  by (relation "measure (\<lambda>(cols, labs, i, itm, nodes). length labs - i)") auto

declare Legend_labels.simps [simp del]

definition Legend :: "dom_node list \<Rightarrow> options \<Rightarrow> error option \<times> dom_node list \<times> legend" where
  "Legend elem opts =
     (case Legend_labels (colors opts) (labels opts) 0 Map.empty [] of
        (err, itm, nodes) \<Rightarrow>
          (err,
           if chartSide opts = ''right'' then LegendNode nodes # elem
           else elem @ [LegendNode nodes],
           \<lparr> item = itm \<rparr>))"


section \<open>PieChart\<close>

text \<open>
  The loop that rewrites a running total into shares, in place: it stops at the first
  element smaller than its predecessor and leaves what it has already rewritten.
\<close>

function runningTotal :: "number list \<Rightarrow> nat \<Rightarrow> number \<Rightarrow> error option \<times> number list" where
  "runningTotal percs i prevNum =
     (if i < length percs then
        let perc = percs ! i
        in if perc < prevNum then (Some Invalid_percentage_values, percs)
           else runningTotal (percs[i := fsub perc prevNum]) (Suc i) perc
      else (None, percs))"
  by pat_completeness auto
termination
  by (relation "measure (\<lambda>(percs, i, prevNum). length percs - i)") auto

declare runningTotal.simps [simp del]

text \<open>\<open>for (var i = divisions; i--; ) totalPerc += percentages[i]\<close>\<close>

fun totalPerc :: "number list \<Rightarrow> nat \<Rightarrow> number \<Rightarrow> number" where
  "totalPerc percs 0 tot = tot"
| "totalPerc percs (Suc i) tot = totalPerc percs i (fadd tot (percs ! i))"

text \<open>
  The loop that makes the pieces: \<open>prevPos\<close> is the running fraction, the end of the
  span just made.
\<close>

function newPieces :: "options \<Rightarrow> nat \<Rightarrow> number \<Rightarrow> piece list \<Rightarrow> piece list" where
  "newPieces opts i prevPos ps =
     (if i < length (percentages opts) then
        let rad = \<lparr> start = prevPos, endp = fadd prevPos (fdiv (percentages opts ! i) 100) \<rparr>
        in newPieces opts (Suc i) (endp rad)
             (ps @ [\<lparr> color = colors opts ! i, radians = rad,
                      pieceBorderWidth = borderWidth opts,
                      pieceBorderColor = borderColor opts \<rparr>])
      else ps)"
  by pat_completeness auto
termination
  by (relation "measure (\<lambda>(opts, i, prevPos, ps). length (percentages opts) - i)") auto

declare newPieces.simps [simp del]

definition initPieces :: "piechart \<Rightarrow> error option \<times> piechart" where
  "initPieces pc =
     (let opts = options pc;
          percs = percentages opts;
          divisions = length percs
      in if length (colors opts) < divisions then (Some Not_enough_colors_given, pc)
         else
           case (if percs \<noteq> [] \<and> last percs = 100 then runningTotal percs 0 0
                 else (None, percs)) of
             (Some err, percs') \<Rightarrow> (Some err, pc\<lparr>options := opts\<lparr>percentages := percs'\<rparr>\<rparr>)
           | (None, percs') \<Rightarrow>
               let pc' = pc\<lparr>options := opts\<lparr>percentages := percs'\<rparr>\<rparr>
               in if totalPerc percs' divisions 0 \<noteq> 100
                  then (Some Invalid_percentage_values, pc')
                  else (None, pc'\<lparr>pieces := newPieces (options pc') 0 0 (pieces pc')\<rparr>))"

definition initHeader :: "piechart \<Rightarrow> piechart" where
  "initHeader pc = pc\<lparr>element := Header (element pc) (options pc)\<rparr>"

definition initLegend :: "piechart \<Rightarrow> error option \<times> piechart" where
  "initLegend pc =
     (case Legend (element pc) (options pc) of
        (Some err, elem, lg) \<Rightarrow> (Some err, pc\<lparr>element := elem\<rparr>)
      | (None, elem, lg) \<Rightarrow> (None, pc\<lparr>element := elem, legend := Some lg\<rparr>))"

definition init :: "piechart \<Rightarrow> error option \<times> piechart" where
  "init pc =
     (let pc1 = pc\<lparr>element := element pc @ [CanvasNode]\<rparr>
      in case (if showLegend (options pc1) then initLegend pc1 else (None, pc1)) of
           (Some err, pc2) \<Rightarrow> (Some err, pc2)
         | (None, pc2) \<Rightarrow>
             (case initPieces (initHeader pc2) of
                (Some err, pc3) \<Rightarrow> (Some err, pc3)
              | (None, pc3) \<Rightarrow>
                  (None, pc3\<lparr>mousemove := True, mouseleave := True, prevPiece := None\<rparr>)))"

definition display :: "piechart \<Rightarrow> piechart" where
  "display pc =
     pc\<lparr>canvas := foldl (\<lambda>ctx i. draw (pieces pc ! i) ctx) (canvas pc)
                     [0 ..< length (percentages (options pc))]\<rparr>"

definition fresh :: "dom_node list \<Rightarrow> options \<Rightarrow> piechart" where
  \<comment> \<open>the object as the constructor finds it before \<open>this.init()\<close>\<close>
  "fresh elem opts =
     \<lparr> pieces = [], element = elem, options = opts, legend = None, canvas = [],
       mousemove = False, mouseleave = False, prevPiece = None, currPiece = None,
       effects = [] \<rparr>"

text \<open>
  \<open>new PieChart(element, options)\<close>: \<open>init\<close>, then \<open>display\<close>. When \<open>init\<close> throws, no
  object is returned and nothing is drawn, but what \<open>init\<close> did to the container and to
  the settings before throwing stays done; the state returned with the error shows it.
\<close>

definition PieChart :: "dom_node list \<Rightarrow> options \<Rightarrow> error option \<times> piechart" where
  "PieChart elem opts =
     (case init (fresh elem opts) of
        (Some err, pc) \<Rightarrow> (Some err, pc)
      | (None, pc) \<Rightarrow> (None, display pc))"

definition addEffects :: "label_node \<Rightarrow> string \<Rightarrow> piechart \<Rightarrow> piechart" where
  "addEffects itm col pc = pc\<lparr>effects := effects pc @ [AddEffects itm col]\<rparr>"

definition clearEffects :: "label_node \<Rightarrow> piechart \<Rightarrow> piechart" where
  \<comment> \<open>the assignment \<open>item = ''\<close> at its end writes to the parameter only\<close>
  "clearEffects itm pc = pc\<lparr>effects := effects pc @ [ClearEffects itm]\<rparr>"

definition pixelHex :: "pixel \<Rightarrow> error + string" where
  \<comment> \<open>\<open>'#' + ('000000' + rgbToHex(p[0], p[1], p[2])).slice(-6)\<close>\<close>
  "pixelHex p =
     (case p of (p0, p1, p2, p3) \<Rightarrow>
        (case rgbToHex p0 p1 p2 of
           Inl err \<Rightarrow> Inl err
         | Inr h \<Rightarrow> Inr (CHR ''#'' # slice_last 6 (''000000'' @ h))))"

definition noPiece :: "piechart \<Rightarrow> piechart" where
  \<comment> \<open>the \<open>else\<close> branch of the mousemove handler\<close>
  "noPiece pc =
     (case prevPiece pc of
        Some prev \<Rightarrow> (clearEffects prev pc)\<lparr>prevPiece := None\<rparr>
      | None \<Rightarrow> pc)"

definition pixelUnder :: "page \<Rightarrow> pointer_event \<Rightarrow> pixel" where
  "pixelUnder pg e =
     (let mouseX = clientX e + body_scrollLeft pg + doc_scrollLeft pg - \<lfloor>offset_left pg\<rfloor>;
          mouseY = clientY e + body_scrollTop pg + doc_scrollTop pg - \<lfloor>offset_top pg\<rfloor> + 1
      in getImageData pg mouseX mouseY)"

definition onhover :: "piechart \<Rightarrow> page \<Rightarrow> pointer_event \<Rightarrow> error option \<times> piechart" where
  "onhover pc pg e =
     (let p = pixelUnder pg e
      in case pixelHex p of
           Inl err \<Rightarrow> (Some err, pc)
         | Inr hex \<Rightarrow>
             if snd (snd (snd p)) \<noteq> 0 then
               (case legend pc of
                  None \<Rightarrow> (Some TypeError, pc)
                | Some lg \<Rightarrow>
                    (case item lg hex of
                       Some entry \<Rightarrow>
                         let pc1 = pc\<lparr>currPiece := Some (label entry)\<rparr>;
                             pc2 = (if prevPiece pc1 \<noteq> currPiece pc1 then
                                      addEffects (label entry) hex
                                        (case prevPiece pc1 of
                                           Some prev \<Rightarrow> clearEffects prev pc1
                                         | None \<Rightarrow> pc1)
                                    else pc1)
                         in (None, pc2\<lparr>prevPiece := currPiece pc2\<rparr>)
                     | None \<Rightarrow> (None, noPiece pc)))
             else (None, noPiece pc))"

definition onmouseleave :: "piechart \<Rightarrow> piechart" where
  "onmouseleave pc =
     (case prevPiece pc of
        Some prev \<Rightarrow> clearEffects prev pc
      | None \<Rightarrow> pc)"


section \<open>Notions of the specification\<close>

text \<open>
  Successive differences of a running total, \<open>share[i] = total[i] - total[i-1]\<close>, with
  \<open>prev\<close> for \<open>total[-1]\<close>.
\<close>

fun successive_differences :: "number \<Rightarrow> number list \<Rightarrow> number list" where
  "successive_differences prev [] = []"
| "successive_differences prev (t # ts) = fsub t prev # successive_differences t ts"

text \<open>The running fraction after the first \<open>i\<close> shares: each share adds its hundredth.\<close>

definition runningFraction :: "number list \<Rightarrow> nat \<Rightarrow> number" where
  "runningFraction percs i = foldl (\<lambda>pos p. fadd pos (fdiv p 100)) 0 (take i percs)"

text \<open>
  What a read-back pixel resolves to: nothing when it is transparent, else the entry the
  legend holds under its colour key.
\<close>

definition resolve :: "legend \<Rightarrow> pixel \<Rightarrow> legend_entry option" where
  "resolve lg p =
     (case pixelHex p of
        Inl err \<Rightarrow> None
      | Inr hex \<Rightarrow> if snd (snd (snd p)) = 0 then None else item lg hex)"

definition highlights :: "effect list \<Rightarrow> effect list" where
  \<comment> \<open>the \<open>addEffects\<close> calls among the effects\<close>
  "highlights es = filter (\<lambda>ef. case ef of AddEffects l c \<Rightarrow> True | ClearEffects l \<Rightarrow> False) es"

text \<open>A pointer move followed by the pointer leaving the canvas.\<close>

definition hover_then_leave :: "piechart \<Rightarrow> page \<Rightarrow> pointer_event \<Rightarrow> piechart" where
  "hover_then_leave pc pg e = onmouseleave (snd (onhover pc pg e))"

text \<open>The shares after the conversion of a running total, where it applies.\<close>

definition final_shares :: "number list \<Rightarrow> number list" where
  "final_shares percs =
     (if percs \<noteq> [] \<and> last percs = 100 then successive_differences 0 percs else percs)"


section \<open>The loops in closed form\<close>

text \<open>
  What the loops of \<open>Legend\<close> and \<open>initPieces\<close> build, position by position, and the
  digits of a number in a fixed width; the lemmas below show that the loops compute
  these.
\<close>

fun hexFixed :: "nat \<Rightarrow> nat \<Rightarrow> string" where
  "hexFixed 0 n = []"
| "hexFixed (Suc k) n = hexFixed k (n div 16) @ [hexDigit (n mod 16)]"

definition labelAt :: "string list \<Rightarrow> string list \<Rightarrow> nat \<Rightarrow> label_node" where
  "labelAt cols labs j = \<lparr> node_id = j, caption = labs ! j, swatch = Some (cols ! j) \<rparr>"

definition entryAt :: "string list \<Rightarrow> string list \<Rightarrow> nat \<Rightarrow> legend_entry" where
  "entryAt cols labs j = \<lparr> label = labelAt cols labs j, colorPart = Some (cols ! j) \<rparr>"

definition itemsUpTo ::
  "string list \<Rightarrow> string list \<Rightarrow> (string \<rightharpoonup> legend_entry) \<Rightarrow> nat list
     \<Rightarrow> (string \<rightharpoonup> legend_entry)" where
  "itemsUpTo cols labs itm js =
     foldl (\<lambda>m j. m(toLowerCase (cols ! j) \<mapsto> entryAt cols labs j)) itm js"

definition pieceAt :: "options \<Rightarrow> nat \<Rightarrow> piece" where
  "pieceAt opts j =
     \<lparr> color = colors opts ! j,
       radians = \<lparr> start = runningFraction (percentages opts) j,
                   endp = runningFraction (percentages opts) (Suc j) \<rparr>,
       pieceBorderWidth = borderWidth opts,
       pieceBorderColor = borderColor opts \<rparr>"

definition legendItems :: "options \<Rightarrow> legend" where
  "legendItems opts =
     \<lparr> item = itemsUpTo (colors opts) (labels opts) Map.empty [0 ..< length (labels opts)] \<rparr>"

definition legendPlaced :: "dom_node list \<Rightarrow> options \<Rightarrow> dom_node list" where
  "legendPlaced elem opts =
     (let nodes = map (labelAt (colors opts) (labels opts)) [0 ..< length (labels opts)]
      in if chartSide opts = ''right'' then LegendNode nodes # elem
         else elem @ [LegendNode nodes])"

definition legendKey :: "options \<Rightarrow> nat \<Rightarrow> string" where
  "legendKey opts j = toLowerCase (colors opts ! j)"


section \<open>Charts to try the plugin on\<close>

text \<open>The default settings with other percentages, in an empty container.\<close>

definition chart_of :: "number list \<Rightarrow> piechart" where
  "chart_of percs = fresh [] (defaults\<lparr>percentages := percs\<rparr>)"

text \<open>
  Settings with a legend, with named and with shorthand colours, with fewer colours than
  percentages, with a share of zero, with fewer labels than shares; and a page whose
  canvas shows the first default colour under the pointer.
\<close>

definition yes_no :: options where
  "yes_no = defaults\<lparr>labels := [''yes'', ''no''], showLegend := True\<rparr>"



definition three_of_two :: options where
  "three_of_two =
     defaults\<lparr>percentages := [50, 25, 25], colors := [''#ff0000'', ''#00ff00''],
              labels := [''a'', ''b''], title := ''Chart'', showLegend := True\<rparr>"

definition three_of_two_plain :: options where
  "three_of_two_plain =
     defaults\<lparr>percentages := [50, 25, 25], colors := [''#ff0000'', ''#00ff00'']\<rparr>"

definition two_slices_one_label :: options where
  "two_slices_one_label =
     defaults\<lparr>percentages := [100, 0], colors := [''#ff0000'', ''#00ff00''],
              labels := [''all''], showLegend := True\<rparr>"

definition first_slice :: page where
  "first_slice =
     \<lparr> body_scrollLeft = 0, doc_scrollLeft = 0, body_scrollTop = 0, doc_scrollTop = 0,
       offset_left = 8, offset_top = 8,
       getImageData = (\<lambda>x y. (247, 247, 177, 255)) \<rparr>"

definition pointer :: pointer_event where
  "pointer = \<lparr> clientX = 200, clientY = 150 \<rparr>"

definition with_zero :: options where
  "with_zero = defaults\<lparr>percentages := [100, 0], showLegend := True\<rparr>"


section \<open>Rounding\<close>

text \<open>
  \<open>ilog2\<close> is the binary exponent, so \<open>fl\<close> keeps 53 significant bits; a value that
  has 53 significant bits is its own rounding, and so is every result of \<open>fl\<close>.
\<close>

lemma ilog2_lower: assumes "0 < a" shows "2 powi ilog2 a \<le> a"
proof (cases "1 \<le> a")
  case True
  define n where "n = \<lfloor>a\<rfloor>"
  have n1: "1 \<le> n" using True by (simp add: n_def)
  then have bl: "1 \<le> bitlen n" by (simp add: bitlen_alt_def)
  have "2 ^ nat (bitlen n - 1) \<le> n" using bitlen_bounds [of n] n1 by simp
  then have "(2::rat) ^ nat (bitlen n - 1) \<le> of_int n"
    by (metis of_int_le_iff of_int_numeral of_int_power)
  also have "\<dots> \<le> a" by (simp add: n_def)
  finally show ?thesis using True bl
    by (simp add: ilog2_def n_def power_int_nonneg_exp)
next
  case False
  define m where "m = \<lceil>1 / a\<rceil> - 1"
  have b1: "1 < 1 / a" using False assms by simp
  have m1: "1 \<le> m" using b1 by (simp add: m_def less_ceiling_iff)
  have "m < 2 ^ nat (bitlen m)" using bitlen_bounds [of m] m1 by simp
  then have "m + 1 \<le> 2 ^ nat (bitlen m)" by simp
  then have "(of_int (m + 1) :: rat) \<le> 2 ^ nat (bitlen m)"
    by (metis of_int_le_iff of_int_numeral of_int_power)
  moreover have "1 / a \<le> of_int (m + 1)" by (simp add: m_def)
  ultimately have "1 / a \<le> 2 ^ nat (bitlen m)" by linarith
  then have "1 / 2 ^ nat (bitlen m) \<le> a" using assms
    by (simp add: field_simps)
  then show ?thesis using False
    by (simp add: ilog2_def m_def power_int_minus_divide power_int_nonneg_exp bitlen_nonneg)
qed

lemma ilog2_upper: assumes "0 < a" shows "a < 2 powi (ilog2 a + 1)"
proof (cases "1 \<le> a")
  case True
  define n where "n = \<lfloor>a\<rfloor>"
  have n1: "1 \<le> n" using True by (simp add: n_def)
  then have bl: "1 \<le> bitlen n" by (simp add: bitlen_alt_def)
  have "n < 2 ^ nat (bitlen n)" using bitlen_bounds [of n] n1 by simp
  then have "n + 1 \<le> 2 ^ nat (bitlen n)" by simp
  then have "(of_int (n + 1) :: rat) \<le> 2 ^ nat (bitlen n)"
    by (metis of_int_le_iff of_int_numeral of_int_power)
  moreover have "a < of_int (n + 1)" using floor_correct [of a] by (simp add: n_def)
  ultimately have "a < 2 ^ nat (bitlen n)" by linarith
  then show ?thesis using True bl
    by (simp add: ilog2_def n_def power_int_nonneg_exp)
next
  case False
  define m where "m = \<lceil>1 / a\<rceil> - 1"
  have b1: "1 < 1 / a" using False assms by simp
  have m1: "1 \<le> m" using b1 by (simp add: m_def less_ceiling_iff)
  then have bl: "1 \<le> bitlen m" by (simp add: bitlen_alt_def)
  have "2 ^ nat (bitlen m - 1) \<le> m" using bitlen_bounds [of m] m1 by simp
  then have "(2::rat) ^ nat (bitlen m - 1) \<le> of_int m"
    by (metis of_int_le_iff of_int_numeral of_int_power)
  moreover have "of_int m < 1 / a" by (simp add: m_def) linarith
  ultimately have "2 ^ nat (bitlen m - 1) < 1 / a" by linarith
  then have "a < 1 / 2 ^ nat (bitlen m - 1)" using assms
    by (simp add: field_simps)
  moreover have "ilog2 a + 1 = - (bitlen m - 1)"
    using False by (simp add: ilog2_def m_def)
  moreover have "(2::rat) powi (- (bitlen m - 1)) = 1 / 2 ^ nat (bitlen m - 1)"
    using bl by (simp only: power_int_minus_divide) (simp add: power_int_nonneg_exp)
  ultimately show ?thesis by simp
qed

lemma ilog2_unique:
  assumes "2 powi e \<le> a" and "a < 2 powi (e + 1)"
  shows "ilog2 a = e"
proof -
  have pos: "0 < a"
    using assms(1) by (meson less_le_trans zero_less_numeral zero_less_power_int)
  have "\<not> ilog2 a < e"
  proof
    assume "ilog2 a < e"
    then have "(2::rat) powi (ilog2 a + 1) \<le> 2 powi e"
      by (intro power_int_increasing) auto
    with ilog2_upper [OF pos] assms(1) show False by linarith
  qed
  moreover have "\<not> e < ilog2 a"
  proof
    assume "e < ilog2 a"
    then have "(2::rat) powi (e + 1) \<le> 2 powi ilog2 a"
      by (intro power_int_increasing) auto
    with ilog2_lower [OF pos] assms(2) show False by linarith
  qed
  ultimately show ?thesis by simp
qed

lemma roundTiesToEven_of_int: "roundTiesToEven (of_int m) = m"
  by (simp add: roundTiesToEven_def)

lemma roundTiesToEven_ge: "of_int lo \<le> y \<Longrightarrow> lo \<le> roundTiesToEven y"
proof -
  assume "of_int lo \<le> y"
  then have "lo \<le> \<lfloor>y\<rfloor>" by (simp add: le_floor_iff)
  then show ?thesis by (simp add: roundTiesToEven_def Let_def)
qed

lemma roundTiesToEven_le: "y \<le> of_int hi \<Longrightarrow> roundTiesToEven y \<le> hi"
proof -
  assume h: "y \<le> of_int hi"
  have "\<lfloor>y\<rfloor> \<le> hi" using h by (simp add: floor_le_iff)
  moreover have "\<lfloor>y\<rfloor> = hi \<Longrightarrow> y = of_int hi"
    using h floor_correct [of y] by linarith
  ultimately show ?thesis
    by (cases "\<lfloor>y\<rfloor> = hi") (auto simp: roundTiesToEven_def Let_def)
qed

lemma fl_representable:
  assumes lo: "2 ^ 52 \<le> \<bar>m\<bar>" and hi: "\<bar>m\<bar> < 2 ^ 53"
  shows "fl (of_int m * 2 powi e) = of_int m * 2 powi e"
proof -
  define z :: rat where "z = of_int m * 2 powi e"
  have p: "(0::rat) < 2 powi e" by (simp add: zero_less_power_int)
  have m0: "m \<noteq> 0" using lo by auto
  have z0: "z \<noteq> 0" using m0 p by (simp add: z_def)
  have az: "\<bar>z\<bar> = of_int \<bar>m\<bar> * 2 powi e"
    using p by (simp add: z_def abs_mult)
  have "(2::rat) ^ 52 \<le> of_int \<bar>m\<bar>"
    using lo by (metis of_int_le_iff of_int_numeral of_int_power)
  then have "2 powi (e + 52) \<le> \<bar>z\<bar>"
    using p by (simp add: az power_int_add mult.commute)
  moreover
  have "of_int \<bar>m\<bar> < (2::rat) ^ 53"
    using hi by (metis of_int_less_iff of_int_numeral of_int_power)
  then have "\<bar>z\<bar> < 2 powi (e + 52 + 1)"
    using p by (simp add: az power_int_add mult.commute)
  ultimately have il: "ilog2 \<bar>z\<bar> = e + 52" by (rule ilog2_unique)
  have "z * 2 powi (- e) = of_int m"
    by (simp add: z_def power_int_minus)
  then show ?thesis
    using z0 il by (simp add: fl_def z_def [symmetric] roundTiesToEven_of_int)
qed

lemma fl_is_representable:
  assumes "x \<noteq> 0"
  shows "\<exists>m e. fl x = of_int m * 2 powi e \<and> 2 ^ 52 \<le> \<bar>m\<bar> \<and> \<bar>m\<bar> < 2 ^ 53"
proof -
  define k where "k = ilog2 \<bar>x\<bar>"
  define e where "e = k - 52"
  define y where "y = x * 2 powi (- e)"
  define m where "m = roundTiesToEven y"
  have ax: "0 < \<bar>x\<bar>" using assms by simp
  have p: "(0::rat) < 2 powi (- e)" by (simp add: zero_less_power_int)
  have fx: "fl x = of_int m * 2 powi e"
    using assms by (simp add: fl_def m_def y_def e_def k_def)
  have ay: "\<bar>y\<bar> = \<bar>x\<bar> * 2 powi (- e)" using p by (simp add: y_def abs_mult)
  have "2 powi k * 2 powi (- e) \<le> \<bar>y\<bar>"
    unfolding ay using ilog2_lower [OF ax] p by (simp add: k_def)
  then have ylo: "2 ^ 52 \<le> \<bar>y\<bar>"
    by (simp add: e_def flip: power_int_add)
  have "\<bar>y\<bar> < 2 powi (k + 1) * 2 powi (- e)"
    unfolding ay using ilog2_upper [OF ax] p by (simp add: k_def)
  then have yhi: "\<bar>y\<bar> < 2 ^ 53"
    by (simp add: e_def flip: power_int_add)
  have mlo: "2 ^ 52 \<le> \<bar>m\<bar>"
  proof (cases "0 \<le> y")
    case True
    then have "of_int (2 ^ 52) \<le> y" using ylo by simp
    from roundTiesToEven_ge [OF this] show ?thesis unfolding m_def by simp
  next
    case False
    then have "y \<le> of_int (- (2 ^ 52))" using ylo by simp
    from roundTiesToEven_le [OF this] show ?thesis unfolding m_def by simp
  qed
  have mhi: "\<bar>m\<bar> \<le> 2 ^ 53"
  proof (cases "0 \<le> y")
    case True
    then have a: "y \<le> of_int (2 ^ 53)" and b: "of_int 0 \<le> y" using yhi by simp_all
    from roundTiesToEven_le [OF a] roundTiesToEven_ge [OF b] show ?thesis
      unfolding m_def by simp
  next
    case False
    then have a: "of_int (- (2 ^ 53)) \<le> y" and b: "y \<le> of_int 0" using yhi by simp_all
    from roundTiesToEven_ge [OF a] roundTiesToEven_le [OF b] show ?thesis
      unfolding m_def by simp
  qed
  show ?thesis
  proof (cases "\<bar>m\<bar> < 2 ^ 53")
    case True
    with fx mlo show ?thesis by blast
  next
    case False
    with mhi have eq: "\<bar>m\<bar> = 2 ^ 53" by simp
    define m' where "m' = m div 2"
    have "m = 2 ^ 53 \<or> m = - (2 ^ 53)" using eq by linarith
    then have mm: "m = 2 * m'" by (auto simp: m'_def)
    have "fl x = of_int m' * 2 powi (e + 1)"
      by (simp add: fx mm power_int_add)
    moreover have "\<bar>m'\<bar> = 2 ^ 52" using eq mm by (simp add: abs_mult)
    ultimately show ?thesis by (intro exI [of _ m'] exI [of _ "e + 1"]) simp
  qed
qed

lemma fl_idem: "fl (fl x) = fl x"
proof (cases "x = 0")
  case True
  then show ?thesis by (simp add: fl_def)
next
  case False
  from fl_is_representable [OF this] obtain m e
    where "fl x = of_int m * 2 powi e" "2 ^ 52 \<le> \<bar>m\<bar>" "\<bar>m\<bar> < 2 ^ 53" by blast
  then show ?thesis by (simp add: fl_representable)
qed

lemma fadd_zero_right: "fadd (fl x) 0 = fl x"
  by (simp add: fadd_def fl_idem)

lemma fl_zero [simp]: "fl 0 = 0"
  by (simp add: fl_def)


text \<open>Integers below \<open>2 ^ 53\<close> are binary64 values, and arithmetic on them is exact.\<close>

lemma fl_of_int:
  assumes "\<bar>n\<bar> < 2 ^ 53"
  shows "fl (of_int n) = of_int n"
proof (cases "n = 0")
  case True
  then show ?thesis by (simp add: fl_def)
next
  case False
  define a :: rat where "a = \<bar>of_int n\<bar>"
  have pos: "0 < a" using False by (simp add: a_def)
  have "a < 2 ^ 53"
    using assms unfolding a_def
    by (metis of_int_abs of_int_less_iff of_int_numeral of_int_power)
  with ilog2_lower [OF pos] have "(2::rat) powi ilog2 a < 2 powi 53" by simp
  then have "ilog2 a < 53"
    using power_int_le_imp_less_exp [of "2::rat" "ilog2 a" 53] by simp
  define k where "k = nat (52 - ilog2 a)"
  have e: "- (ilog2 a - 52) = int k" using \<open>ilog2 a < 53\<close> by (simp add: k_def)
  have "of_int n * (2::rat) powi (- (ilog2 a - 52)) = of_int (n * 2 ^ k)"
    unfolding e by simp
  moreover have "(2::rat) powi (ilog2 a - 52) = 1 / 2 ^ k"
    using e by (metis power_int_minus_divide power_int_of_nat add.inverse_inverse)
  moreover have "roundTiesToEven (of_int n * 2 ^ k) = n * 2 ^ k"
    using roundTiesToEven_of_int [of "n * 2 ^ k"] by simp
  ultimately show ?thesis
    using False by (simp add: fl_def a_def [symmetric])
qed

lemma fl_numeral [simp]: "numeral k < (2::int) ^ 53 \<Longrightarrow> fl (numeral k) = numeral k"
  using fl_of_int [of "numeral k"] by simp

lemma fl_neg_numeral [simp]:
  "numeral k < (2::int) ^ 53 \<Longrightarrow> fl (- numeral k) = - numeral k"
  using fl_of_int [of "- numeral k"] by simp

lemma fl_one [simp]: "fl 1 = 1"
  using fl_of_int [of 1] by simp










lemma fl_Ints:
  assumes "x \<in> \<int>" and "\<bar>x\<bar> < 2 ^ 53"
  shows "fl x = x"
proof -
  from assms(1) obtain n where x: "x = of_int n" by (auto elim: Ints_cases)
  have "\<bar>n\<bar> < 2 ^ 53"
    using assms(2) unfolding x
    by (metis of_int_abs of_int_less_iff of_int_numeral of_int_power)
  then show ?thesis unfolding x by (rule fl_of_int)
qed


section \<open>The percentage loops\<close>

lemma runningTotal_sorted:
  "sorted (prev # rest) \<Longrightarrow> i = length done \<Longrightarrow>
   runningTotal (done @ rest) i prev = (None, done @ successive_differences prev rest)"
proof (induction rest arbitrary: "done" prev i)
  case Nil
  then show ?case by (simp add: runningTotal.simps)
next
  case (Cons t ts)
  from Cons.prems have le: "prev \<le> t" and srt: "sorted (t # ts)"
    by (simp_all only: sorted2)
  have "runningTotal (done @ t # ts) i prev
          = runningTotal ((done @ [fsub t prev]) @ ts) (Suc i) t"
    using Cons.prems le
    by (subst runningTotal.simps) (simp add: nth_append list_update_append)
  also have "\<dots> = (None, (done @ [fsub t prev]) @ successive_differences t ts)"
    using Cons.prems by (intro Cons.IH srt) simp
  finally show ?case by simp
qed

lemma runningTotal_unsorted:
  "\<not> sorted (prev # rest) \<Longrightarrow> i = length done \<Longrightarrow>
   fst (runningTotal (done @ rest) i prev) = Some Invalid_percentage_values"
proof (induction rest arbitrary: "done" prev i)
  case Nil
  then show ?case by simp
next
  case (Cons t ts)
  show ?case
  proof (cases "t < prev")
    case True
    then show ?thesis using Cons.prems
      by (subst runningTotal.simps) (simp add: nth_append)
  next
    case False
    with Cons.prems have srt: "\<not> sorted (t # ts)"
      by (simp only: sorted2) simp
    have "runningTotal (done @ t # ts) i prev
            = runningTotal ((done @ [fsub t prev]) @ ts) (Suc i) t"
      using Cons.prems False
      by (subst runningTotal.simps) (simp add: nth_append list_update_append)
    moreover have "fst (runningTotal ((done @ [fsub t prev]) @ ts) (Suc i) t)
                     = Some Invalid_percentage_values"
      using Cons.prems by (intro Cons.IH srt) simp
    ultimately show ?thesis by simp
  qed
qed

lemma runningTotal_length: "length (snd (runningTotal percs i prevNum)) = length percs"
proof (induction percs i prevNum rule: runningTotal.induct)
  case (1 percs i prevNum)
  show ?case
    by (subst runningTotal.simps) (use 1 in \<open>auto simp: Let_def\<close>)
qed

lemma runningTotal_error:
  "fst (runningTotal percs i prevNum) = None \<or>
   fst (runningTotal percs i prevNum) = Some Invalid_percentage_values"
proof (induction percs i prevNum rule: runningTotal.induct)
  case (1 percs i prevNum)
  show ?case
    by (subst (1 2) runningTotal.simps) (use 1 in \<open>auto simp: Let_def\<close>)
qed

lemma length_successive_differences [simp]:
  "length (successive_differences prev ts) = length ts"
  by (induction ts arbitrary: prev) simp_all

lemma totalPerc_foldl: "n \<le> length percs \<Longrightarrow> totalPerc percs n tot = foldl fadd tot (rev (take n percs))"
proof (induction n arbitrary: tot)
  case 0
  then show ?case by simp
next
  case (Suc n)
  then show ?case by (simp add: take_Suc_conv_app_nth)
qed

lemma successive_differences_nth:
  "i < length ts \<Longrightarrow>
   successive_differences prev ts ! i = fsub (ts ! i) (if i = 0 then prev else ts ! (i - 1))"
proof (induction ts arbitrary: prev i)
  case Nil
  then show ?case by simp
next
  case (Cons t ts)
  then show ?case by (cases i) (auto simp: nth_Cons')
qed

lemma initPieces_not_enough:
  "length (colors (options pc)) < length (percentages (options pc)) \<Longrightarrow>
   initPieces pc = (Some Not_enough_colors_given, pc)"
  by (simp add: initPieces_def Let_def)

lemma initPieces_as_given:
  assumes "length (percentages (options pc)) \<le> length (colors (options pc))"
    and "percentages (options pc) = [] \<or> last (percentages (options pc)) \<noteq> 100"
  shows "initPieces pc =
           (if totalPerc (percentages (options pc)) (length (percentages (options pc))) 0 \<noteq> 100
            then (Some Invalid_percentage_values, pc)
            else (None, pc\<lparr>pieces := newPieces (options pc) 0 0 (pieces pc)\<rparr>))"
  using assms by (auto simp: initPieces_def Let_def)

lemma initPieces_running_sorted:
  assumes "length (percentages (options pc)) \<le> length (colors (options pc))"
    and "percentages (options pc) \<noteq> []" and "last (percentages (options pc)) = 100"
    and "sorted (0 # percentages (options pc))"
  shows "initPieces pc =
           (let shares = successive_differences 0 (percentages (options pc));
                pc' = pc\<lparr>options := (options pc)\<lparr>percentages := shares\<rparr>\<rparr>
            in if totalPerc shares (length shares) 0 \<noteq> 100
               then (Some Invalid_percentage_values, pc')
               else (None, pc'\<lparr>pieces := newPieces (options pc') 0 0 (pieces pc)\<rparr>))"
proof -
  have "runningTotal (percentages (options pc)) 0 0
          = (None, successive_differences 0 (percentages (options pc)))"
    using runningTotal_sorted [OF assms(4), of 0 "[]"] by simp
  then show ?thesis using assms(1-3) by (simp add: initPieces_def Let_def)
qed

lemma initPieces_running_unsorted:
  assumes "length (percentages (options pc)) \<le> length (colors (options pc))"
    and "percentages (options pc) \<noteq> []" and "last (percentages (options pc)) = 100"
    and "\<not> sorted (0 # percentages (options pc))"
  shows "fst (initPieces pc) = Some Invalid_percentage_values"
proof -
  have "fst (runningTotal (percentages (options pc)) 0 0) = Some Invalid_percentage_values"
    using runningTotal_unsorted [OF assms(4), of 0 "[]"] by simp
  then obtain percs' where
    "runningTotal (percentages (options pc)) 0 0 = (Some Invalid_percentage_values, percs')"
    by (cases "runningTotal (percentages (options pc)) 0 0") simp
  then show ?thesis using assms(1-3) by (simp add: initPieces_def Let_def)
qed

lemma chart_of_simps:
  "percentages (options (chart_of percs)) = percs"
  "length (colors (options (chart_of percs))) = 10"
  by (simp_all add: chart_of_def fresh_def defaults_def EASTER_def)

lemma initPieces_outcome:
  assumes "length (percentages (options pc)) \<le> length (colors (options pc))"
  shows "fst (initPieces pc) = None \<or> fst (initPieces pc) = Some Invalid_percentage_values"
proof -
  have "fst (runningTotal (percentages (options pc)) 0 0) = None \<or>
        fst (runningTotal (percentages (options pc)) 0 0) = Some Invalid_percentage_values"
    by (rule runningTotal_error)
  then show ?thesis using assms
    by (auto simp: initPieces_def Let_def split: prod.splits option.splits)
qed

text \<open>
  A running total of integers ending in 100 passes the sum check: every difference and
  every partial sum is an integer between 0 and 100, so nothing is rounded.
\<close>

lemma integer_total_sums:
  assumes srt: "sorted (0 # totals)" and ints: "set totals \<subseteq> \<int>"
    and ne: "totals \<noteq> []" and l: "last totals = 100"
  shows "totalPerc (successive_differences 0 totals) (length totals) 0 = 100"
proof -
  let ?n = "length totals"
  let ?shares = "successive_differences 0 totals"
  define T where "T i = (if i = 0 then 0 else totals ! (i - 1))" for i
  from srt have nonneg: "\<forall>x \<in> set totals. 0 \<le> x" and srt': "sorted totals" by simp_all
  have lastn: "totals ! (?n - 1) = 100" using ne l by (simp add: last_conv_nth)
  have rng: "totals ! j \<in> \<int> \<and> 0 \<le> totals ! j \<and> totals ! j \<le> 100" if "j < ?n" for j
  proof -
    have "totals ! j \<le> totals ! (?n - 1)"
      using that srt' by (intro sorted_nth_mono) auto
    with that ints nonneg lastn show ?thesis by (auto simp: subset_iff)
  qed
  have Trng: "T i \<in> \<int> \<and> 0 \<le> T i \<and> T i \<le> 100" if "i \<le> ?n" for i
    using that rng [of "i - 1"] by (cases "i = 0") (auto simp: T_def)
  have Tle: "T j \<le> totals ! j" if "j < ?n" for j
  proof (cases "j = 0")
    case True
    with rng [OF that] show ?thesis by (simp add: T_def)
  next
    case False
    then have "totals ! (j - 1) \<le> totals ! j"
      using that srt' by (intro sorted_nth_mono) auto
    with False show ?thesis by (simp add: T_def)
  qed
  have sh: "?shares ! j = totals ! j - T j" if "j < ?n" for j
  proof -
    have "totals ! j - T j \<in> \<int>" using rng [OF that] Trng [of j] that by (auto intro: Ints_diff)
    moreover have "\<bar>totals ! j - T j\<bar> < 2 ^ 53"
      using rng [OF that] Trng [of j] Tle [OF that] that by simp
    ultimately have "fl (totals ! j - T j) = totals ! j - T j" by (rule fl_Ints)
    then show ?thesis
      using that by (simp add: successive_differences_nth fsub_def T_def)
  qed
  have inv: "totalPerc ?shares i (100 - T i) = 100" if "i \<le> ?n" for i
    using that
  proof (induction i)
    case 0
    show ?case by (simp add: T_def)
  next
    case (Suc j)
    then have j: "j < ?n" by simp
    have TS: "T (Suc j) = totals ! j" by (simp add: T_def)
    have "100 - T j \<in> \<int>" using Trng [of j] j by (auto intro: Ints_diff)
    moreover have "\<bar>100 - T j\<bar> < 2 ^ 53" using Trng [of j] j by simp
    ultimately have "fl (100 - T j) = 100 - T j" by (rule fl_Ints)
    then have "fadd (100 - T (Suc j)) (?shares ! j) = 100 - T j"
      by (simp add: fadd_def TS sh [OF j])
    with Suc.IH j show ?case by simp
  qed
  have "T ?n = 100" using ne lastn by (simp add: T_def)
  with inv [of ?n] show ?thesis by simp
qed


section \<open>Colour keys\<close>

lemma or_low_bits:
  fixes a b :: nat
  assumes "b < 2 ^ k"
  shows "or (push_bit k a) b = push_bit k a + b"
proof -
  have b: "take_bit k b = b" using assms by (simp add: take_bit_nat_eq_self)
  have "and (push_bit k a) (take_bit k b) = 0"
    by (auto simp: bit_eq_iff bit_simps)
  then have "push_bit k a + b = or (push_bit k a) b"
    unfolding b by (rule disjunctive_add_eq_or)
  then show ?thesis by simp
qed

lemma rgb_number:
  fixes r g b :: nat
  assumes "g < 256" and "b < 256"
  shows "or (or (push_bit 16 r) (push_bit 8 g)) b = (r * 256 + g) * 256 + b"
proof -
  have "or (or (push_bit 16 r) (push_bit 8 g)) b = or (push_bit 8 (or (push_bit 8 r) g)) b"
    by (simp add: push_bit_or push_bit_push_bit)
  also have "\<dots> = push_bit 8 (or (push_bit 8 r) g) + b"
    using assms(2) by (intro or_low_bits) simp
  also have "or (push_bit 8 r) g = push_bit 8 r + g"
    using assms(1) by (intro or_low_bits) simp
  finally show ?thesis by (simp add: push_bit_eq_mult)
qed

lemma hexFixed_zero: "hexFixed k 0 = replicate k CHR ''0''"
proof (induction k)
  case 0
  show ?case by simp
next
  case (Suc k)
  have "hexDigit 0 = CHR ''0''" by (simp add: hexDigit_def)
  with Suc show ?case by (simp add: replicate_append_same)
qed

lemma slice_last_snoc: "slice_last (Suc k) (s @ [c]) = slice_last k s @ [c]"
  by (simp add: slice_last_def)

lemma slice_last_Cons: "k \<le> length s \<Longrightarrow> slice_last k (c # s) = slice_last k s"
  by (simp add: slice_last_def Suc_diff_le)

lemma slice_last_padded:
  "n < 16 ^ k \<Longrightarrow> slice_last k (replicate k CHR ''0'' @ toString16 n) = hexFixed k n"
proof (induction k arbitrary: n)
  case 0
  then show ?case by (simp add: slice_last_def)
next
  case (Suc k)
  show ?case
  proof (cases "n < 16")
    case True
    then have "toString16 n = [hexDigit n]" by (simp add: toString16.simps)
    moreover have "slice_last k (replicate (Suc k) CHR ''0'') = replicate k CHR ''0''"
      by (simp add: slice_last_def)
    ultimately show ?thesis
      using True by (simp add: slice_last_snoc hexFixed_zero del: replicate_Suc)
  next
    case False
    then have ts: "toString16 n = toString16 (n div 16) @ [hexDigit (n mod 16)]"
      by (subst toString16.simps) simp
    have lt: "n div 16 < 16 ^ k" using Suc.prems by (simp add: less_mult_imp_div_less)
    have "slice_last (Suc k) (replicate (Suc k) CHR ''0'' @ toString16 n)
            = slice_last k (CHR ''0'' # (replicate k CHR ''0'' @ toString16 (n div 16)))
                @ [hexDigit (n mod 16)]"
      unfolding ts using slice_last_snoc [of k "replicate (Suc k) CHR ''0'' @ toString16 (n div 16)"]
      by simp
    also have "slice_last k (CHR ''0'' # (replicate k CHR ''0'' @ toString16 (n div 16)))
                 = slice_last k (replicate k CHR ''0'' @ toString16 (n div 16))"
      by (rule slice_last_Cons) simp
    finally show ?thesis using Suc.IH [OF lt] by simp
  qed
qed

lemma hexValue_less: "hexValue c = Some v \<Longrightarrow> v < 16"
  by (auto simp: hexValue_def Let_def split: if_splits)

lemma hexDigit_digits:
  "list_all (\<lambda>n. hexDigit (n - 48) = lowerChar (char_of n))
     [48, 49, 50, 51, 52, 53, 54, 55, 56, 57]"
  by (simp add: hexDigit_def lowerChar_def char_of_def bit_Suc_0_iff)

lemma hexDigit_lower:
  "list_all (\<lambda>n. hexDigit (n - 87) = lowerChar (char_of n)) [97, 98, 99, 100, 101, 102]"
  by (simp add: hexDigit_def lowerChar_def char_of_def bit_Suc_0_iff)

lemma hexDigit_upper:
  "list_all (\<lambda>n. hexDigit (n - 55) = lowerChar (char_of n)) [65, 66, 67, 68, 69, 70]"
  by (simp add: hexDigit_def lowerChar_def char_of_def bit_Suc_0_iff)

lemma hexDigit_hexValue:
  assumes "hexValue c = Some v"
  shows "hexDigit v = lowerChar c"
proof -
  define n where "n = (of_char c :: nat)"
  have c: "c = char_of n" by (simp add: n_def)
  from assms consider
      "48 \<le> n" "n \<le> 57" "v = n - 48"
    | "97 \<le> n" "n \<le> 102" "v = n - 87"
    | "65 \<le> n" "n \<le> 70" "v = n - 55"
    by (auto simp: hexValue_def Let_def n_def split: if_splits)
  then show ?thesis
  proof cases
    case 1
    then have "n \<in> set [48, 49, 50, 51, 52, 53, 54, 55, 56, 57]" by simp arith
    with hexDigit_digits show ?thesis unfolding c 1(3) list_all_iff by blast
  next
    case 2
    then have "n \<in> set [97, 98, 99, 100, 101, 102]" by simp arith
    with hexDigit_lower show ?thesis unfolding c 2(3) list_all_iff by blast
  next
    case 3
    then have "n \<in> set [65, 66, 67, 68, 69, 70]" by simp arith
    with hexDigit_upper show ?thesis unfolding c 3(3) list_all_iff by blast
  qed
qed

lemma hexPair_digits:
  assumes "hexPair c d = Some n"
  shows "n < 256" and "hexDigit (n div 16) = lowerChar c" and "hexDigit (n mod 16) = lowerChar d"
proof -
  from assms obtain x y where x: "hexValue c = Some x" and y: "hexValue d = Some y"
    and n: "n = 16 * x + y"
    by (auto split: option.splits)
  from hexValue_less [OF x] hexValue_less [OF y] show "n < 256" by (simp add: n)
  from hexValue_less [OF y] have "n div 16 = x" "n mod 16 = y" by (simp_all add: n)
  then show "hexDigit (n div 16) = lowerChar c" "hexDigit (n mod 16) = lowerChar d"
    using hexDigit_hexValue [OF x] hexDigit_hexValue [OF y] by simp_all
qed

lemma byte_split:
  fixes m b :: nat
  assumes "b < 256"
  shows "(m * 256 + b) mod 16 = b mod 16"
    and "(m * 256 + b) div 16 mod 16 = b div 16"
    and "(m * 256 + b) div 16 div 16 = m"
proof -
  have e: "m * 256 + b = 16 * (m * 16) + b" by simp
  show "(m * 256 + b) mod 16 = b mod 16" unfolding e by (simp only: mod_mult_self4)
  have d: "(m * 256 + b) div 16 = m * 16 + b div 16"
    unfolding e by simp
  have "b div 16 < 16" using assms by simp
  then show "(m * 256 + b) div 16 mod 16 = b div 16" "(m * 256 + b) div 16 div 16 = m"
    unfolding d by simp_all
qed

lemma six: "(6::nat) = Suc (Suc (Suc (Suc (Suc (Suc 0)))))"
  by simp

lemma hexFixed_6:
  "hexFixed 6 n =
     [hexDigit (n div 16 div 16 div 16 div 16 div 16 mod 16),
      hexDigit (n div 16 div 16 div 16 div 16 mod 16),
      hexDigit (n div 16 div 16 div 16 mod 16),
      hexDigit (n div 16 div 16 mod 16),
      hexDigit (n div 16 mod 16),
      hexDigit (n mod 16)]"
  unfolding six by (simp only: hexFixed.simps append.simps)

lemma zeros_6: "replicate 6 CHR ''0'' = ''000000''"
  unfolding six by (simp only: replicate.simps)

lemma lowerChar_hash: "lowerChar CHR ''#'' = CHR ''#''"
  by (simp add: lowerChar_def)

lemma pixelHex_fillPixel:
  assumes "fillPixel s = Some p"
  shows "pixelHex p = Inr (toLowerCase s)"
proof -
  from assms obtain r1 r2 g1 g2 b1 b2 where s: "s = [CHR ''#'', r1, r2, g1, g2, b1, b2]"
    by (cases s rule: fillPixel.cases) (auto split: if_splits)
  from assms obtain r g b where r: "hexPair r1 r2 = Some r" and g: "hexPair g1 g2 = Some g"
    and b: "hexPair b1 b2 = Some b" and p: "p = (r, g, b, 255)"
    unfolding s by (auto split: option.splits simp del: hexPair.simps)
  note rd = hexPair_digits [OF r] and gd = hexPair_digits [OF g] and bd = hexPair_digits [OF b]
  define n where "n = (r * 256 + g) * 256 + b"
  have n: "or (or (push_bit 16 r) (push_bit 8 g)) b = n"
    unfolding n_def using gd(1) bd(1) by (rule rgb_number)
  have lt: "n < 16 ^ 6" using rd(1) gd(1) bd(1) by (simp add: n_def)
  have r16: "r div 16 mod 16 = r div 16" using rd(1) by simp
  have d: "n mod 16 = b mod 16" "n div 16 mod 16 = b div 16"
    "n div 16 div 16 mod 16 = g mod 16" "n div 16 div 16 div 16 mod 16 = g div 16"
    "n div 16 div 16 div 16 div 16 mod 16 = r mod 16"
    "n div 16 div 16 div 16 div 16 div 16 mod 16 = r div 16"
    unfolding n_def
    by (simp_all only: byte_split [OF bd(1)] byte_split [OF gd(1)] r16)
  have "hexFixed 6 n = map lowerChar [r1, r2, g1, g2, b1, b2]"
    unfolding hexFixed_6 d by (simp add: rd gd bd)
  with slice_last_padded [OF lt]
  have "slice_last 6 (''000000'' @ toString16 n) = map lowerChar [r1, r2, g1, g2, b1, b2]"
    by (simp only: zeros_6)
  then show ?thesis
    using rd(1) gd(1) bd(1)
    by (simp add: pixelHex_def p rgbToHex_def n s toLowerCase_def lowerChar_hash)
qed

section \<open>The legend\<close>

lemma Legend_labels_ok:
  "length labs \<le> length cols \<Longrightarrow> i \<le> length labs \<Longrightarrow>
   Legend_labels cols labs i itm nodes =
     (None, itemsUpTo cols labs itm [i ..< length labs],
      nodes @ map (labelAt cols labs) [i ..< length labs])"
proof (induction "length labs - i" arbitrary: i itm nodes)
  case 0
  then have "i = length labs" by simp
  then show ?case by (subst Legend_labels.simps) (simp add: itemsUpTo_def)
next
  case (Suc k)
  then have lt: "i < length labs" and lc: "i < length cols" by simp_all
  have k: "k = length labs - Suc i" using Suc.hyps(2) by simp
  have upt: "[i ..< length labs] = i # [Suc i ..< length labs]"
    using lt by (simp add: upt_conv_Cons)
  have "Legend_labels cols labs i itm nodes =
          Legend_labels cols labs (Suc i)
            (itm(toLowerCase (cols ! i) \<mapsto> entryAt cols labs i))
            (nodes @ [labelAt cols labs i])"
    using lt lc by (subst Legend_labels.simps) (simp add: Let_def entryAt_def labelAt_def)
  also have "\<dots> = (None,
       itemsUpTo cols labs (itm(toLowerCase (cols ! i) \<mapsto> entryAt cols labs i))
         [Suc i ..< length labs],
       (nodes @ [labelAt cols labs i]) @ map (labelAt cols labs) [Suc i ..< length labs])"
    using Suc.prems lt by (intro Suc.hyps(1) k) simp_all
  finally show ?case unfolding upt by (simp add: itemsUpTo_def)
qed

lemma Legend_labels_TypeError:
  "length cols < length labs \<Longrightarrow> i \<le> length cols \<Longrightarrow>
   fst (Legend_labels cols labs i itm nodes) = Some TypeError"
proof (induction "length cols - i" arbitrary: i itm nodes)
  case 0
  then have "i = length cols" by simp
  with 0 show ?case by (subst Legend_labels.simps) (simp add: Let_def)
next
  case (Suc k)
  then have lc: "i < length cols" and lt: "i < length labs" by simp_all
  have k: "k = length cols - Suc i" using Suc.hyps(2) by simp
  show ?case
    using lt lc Suc.hyps(1) [OF k Suc.prems(1), of _ _] Suc.prems
    by (subst Legend_labels.simps) (simp add: Let_def)
qed

lemma itemsUpTo_snoc:
  "itemsUpTo cols labs itm (js @ [j]) =
     (itemsUpTo cols labs itm js)(toLowerCase (cols ! j) \<mapsto> entryAt cols labs j)"
  by (simp add: itemsUpTo_def)

lemma itemsUpTo_found:
  "i \<le> j \<Longrightarrow> j < n \<Longrightarrow>
   (\<forall>j'. j < j' \<and> j' < n \<longrightarrow> toLowerCase (cols ! j') \<noteq> toLowerCase (cols ! j)) \<Longrightarrow>
   itemsUpTo cols labs itm [i ..< n] (toLowerCase (cols ! j)) = Some (entryAt cols labs j)"
proof (induction n)
  case 0
  then show ?case by simp
next
  case (Suc n)
  then have up: "[i ..< Suc n] = [i ..< n] @ [n]" by simp
  show ?case
  proof (cases "j = n")
    case True
    then show ?thesis unfolding up itemsUpTo_snoc by simp
  next
    case False
    with Suc.prems have "j < n" and "toLowerCase (cols ! n) \<noteq> toLowerCase (cols ! j)"
      by auto
    moreover from Suc.prems
    have "\<forall>j'. j < j' \<and> j' < n \<longrightarrow> toLowerCase (cols ! j') \<noteq> toLowerCase (cols ! j)"
      by auto
    ultimately show ?thesis
      unfolding up itemsUpTo_snoc using Suc.IH Suc.prems(1) by simp
  qed
qed

lemma itemsUpTo_missed:
  "(\<forall>j. i \<le> j \<and> j < n \<longrightarrow> toLowerCase (cols ! j) \<noteq> k) \<Longrightarrow>
   itemsUpTo cols labs itm [i ..< n] k = itm k"
proof (induction n)
  case 0
  then show ?case by (simp add: itemsUpTo_def)
next
  case (Suc n)
  show ?case
  proof (cases "i \<le> n")
    case True
    then have up: "[i ..< Suc n] = [i ..< n] @ [n]" by simp
    from Suc.prems True have "toLowerCase (cols ! n) \<noteq> k" by auto
    moreover from Suc.prems have "itemsUpTo cols labs itm [i ..< n] k = itm k"
      by (intro Suc.IH) auto
    ultimately show ?thesis unfolding up itemsUpTo_snoc by simp
  next
    case False
    then show ?thesis by (simp add: itemsUpTo_def)
  qed
qed

lemma Legend_ok:
  assumes "length (labels opts) \<le> length (colors opts)"
  shows "Legend elem opts =
     (None,
      if chartSide opts = ''right''
      then LegendNode (map (labelAt (colors opts) (labels opts)) [0 ..< length (labels opts)]) # elem
      else elem @ [LegendNode (map (labelAt (colors opts) (labels opts)) [0 ..< length (labels opts)])],
      \<lparr> item = itemsUpTo (colors opts) (labels opts) Map.empty [0 ..< length (labels opts)] \<rparr>)"
  using Legend_labels_ok [OF assms, of 0 Map.empty "[]"] by (simp add: Legend_def)

lemma Legend_TypeError:
  assumes "length (colors opts) < length (labels opts)"
  shows "fst (Legend elem opts) = Some TypeError"
  using Legend_labels_TypeError [OF assms, of 0 Map.empty "[]"]
  by (auto simp: Legend_def split: prod.splits)

section \<open>The pieces\<close>

lemma runningFraction_0: "runningFraction percs 0 = 0"
  by (simp add: runningFraction_def)

lemma runningFraction_Suc:
  "j < length percs \<Longrightarrow>
   runningFraction percs (Suc j) = fadd (runningFraction percs j) (fdiv (percs ! j) 100)"
  by (simp add: runningFraction_def take_Suc_conv_app_nth)

lemma runningFraction_rounded: "\<exists>x. runningFraction percs j = fl x"
proof (cases "j = 0 \<or> percs = []")
  case True
  then have "runningFraction percs j = fl 0"
    by (auto simp: runningFraction_def fl_zero)
  then show ?thesis ..
next
  case False
  then obtain xs x where "take j percs = xs @ [x]"
    by (metis take_eq_Nil rev_exhaust)
  then have "runningFraction percs j =
      fl (foldl (\<lambda>pos p. fadd pos (fdiv p 100)) 0 xs + fdiv x 100)"
    by (simp add: runningFraction_def fadd_def)
  then show ?thesis ..
qed

lemma newPieces_eq:
  "i \<le> length (percentages opts) \<Longrightarrow> prevPos = runningFraction (percentages opts) i \<Longrightarrow>
   newPieces opts i prevPos ps = ps @ map (pieceAt opts) [i ..< length (percentages opts)]"
proof (induction "length (percentages opts) - i" arbitrary: i prevPos ps)
  case 0
  then show ?case by (subst newPieces.simps) simp
next
  case (Suc k)
  then have lt: "i < length (percentages opts)" by simp
  have k: "k = length (percentages opts) - Suc i" using Suc.hyps(2) by simp
  have upt: "[i ..< length (percentages opts)] = i # [Suc i ..< length (percentages opts)]"
    using lt by (simp add: upt_conv_Cons)
  have "newPieces opts i prevPos ps =
          newPieces opts (Suc i) (runningFraction (percentages opts) (Suc i))
            (ps @ [pieceAt opts i])"
    using lt Suc.prems(2)
    by (subst newPieces.simps) (simp add: Let_def pieceAt_def runningFraction_Suc)
  also have "\<dots> = (ps @ [pieceAt opts i]) @
                     map (pieceAt opts) [Suc i ..< length (percentages opts)]"
    using lt by (intro Suc.hyps(1) k) simp_all
  finally show ?case unfolding upt by simp
qed

lemma totalPerc_empty: "totalPerc [] 0 0 \<noteq> 100"
  by simp

lemma initPieces_accepts:
  assumes "initPieces pc = (None, pc')"
  shows "pc' = pc\<lparr>options := (options pc)\<lparr>percentages := final_shares (percentages (options pc))\<rparr>,
                  pieces := pieces pc @ map (pieceAt (options pc'))
                                 [0 ..< length (percentages (options pc))]\<rparr>"
    and "length (percentages (options pc)) \<le> length (colors (options pc))"
    and "percentages (options pc) \<noteq> []"
    and "totalPerc (final_shares (percentages (options pc)))
           (length (percentages (options pc))) 0 = 100"
proof -
  let ?percs = "percentages (options pc)"
  let ?opts' = "(options pc)\<lparr>percentages := final_shares ?percs\<rparr>"
  show le: "length ?percs \<le> length (colors (options pc))"
    using assms by (auto simp: initPieces_def Let_def split: if_splits)
  have len: "length (final_shares ?percs) = length ?percs"
    by (simp add: final_shares_def)
  have main: "pc' = pc\<lparr>options := ?opts', pieces := newPieces ?opts' 0 0 (pieces pc)\<rparr>
              \<and> totalPerc (final_shares ?percs) (length ?percs) 0 = 100"
  proof (cases "?percs \<noteq> [] \<and> last ?percs = 100")
    case False
    then have fs: "final_shares ?percs = ?percs" by (auto simp: final_shares_def)
    from False le assms initPieces_as_given [of pc]
    show ?thesis unfolding fs by (auto split: if_splits)
  next
    case True
    then have fs: "final_shares ?percs = successive_differences 0 ?percs"
      by (simp add: final_shares_def)
    show ?thesis
    proof (cases "sorted (0 # ?percs)")
      case srt: True
      from initPieces_running_sorted [of pc] True srt le assms
      show ?thesis unfolding fs by (auto simp: Let_def split: if_splits)
    next
      case False
      from initPieces_running_unsorted [of pc] True False le assms
      show ?thesis by simp
    qed
  qed
  then show "totalPerc (final_shares ?percs) (length ?percs) 0 = 100" by simp
  show "?percs \<noteq> []"
  proof
    assume "?percs = []"
    with main show False by (simp add: final_shares_def)
  qed
  from main have o: "options pc' = ?opts'" by simp
  have "newPieces ?opts' 0 0 (pieces pc) =
          pieces pc @ map (pieceAt ?opts') [0 ..< length (percentages ?opts')]"
    by (rule newPieces_eq) (simp_all add: runningFraction_0)
  with main show "pc' = pc\<lparr>options := ?opts',
                  pieces := pieces pc @ map (pieceAt (options pc')) [0 ..< length ?percs]\<rparr>"
    unfolding o by (simp add: len)
qed

lemma pieceAt_radians:
  "start (radians (pieceAt opts j)) = runningFraction (percentages opts) j"
  "endp (radians (pieceAt opts j)) = runningFraction (percentages opts) (Suc j)"
  "color (pieceAt opts j) = colors opts ! j"
  by (simp_all add: pieceAt_def)

lemma runningFraction_zero_share:
  assumes "i < length percs" and "percs ! i = 0"
  shows "runningFraction percs (Suc i) = runningFraction percs i"
proof -
  obtain x where x: "runningFraction percs i = fl x"
    using runningFraction_rounded by blast
  have "fdiv 0 100 = 0" by (simp add: fdiv_def fl_zero)
  then show ?thesis
    using assms by (simp add: runningFraction_Suc x fadd_zero_right)
qed




section \<open>Construction\<close>

lemma Legend_ok':
  "length (labels opts) \<le> length (colors opts) \<Longrightarrow>
   Legend elem opts = (None, legendPlaced elem opts, legendItems opts)"
  by (simp add: Legend_ok legendPlaced_def legendItems_def)

lemma init_legend_phase:
  assumes "fst (init (fresh elem opts)) \<noteq> Some TypeError"
  shows "init (fresh elem opts) =
     (let pc2 = (fresh elem opts)
                  \<lparr>element := HeaderNode (title opts) (titleJustify opts) #
                      (if showLegend opts then legendPlaced (elem @ [CanvasNode]) opts
                       else elem @ [CanvasNode]),
                   legend := (if showLegend opts then Some (legendItems opts) else None)\<rparr>
      in case initPieces pc2 of
           (Some err, pc3) \<Rightarrow> (Some err, pc3)
         | (None, pc3) \<Rightarrow>
             (None, pc3\<lparr>mousemove := True, mouseleave := True, prevPiece := None\<rparr>))"
    and "showLegend opts \<Longrightarrow> length (labels opts) \<le> length (colors opts)"
proof -
  show le: "length (labels opts) \<le> length (colors opts)" if "showLegend opts"
  proof (rule ccontr)
    assume "\<not> length (labels opts) \<le> length (colors opts)"
    then have "fst (Legend (elem @ [CanvasNode]) opts) = Some TypeError"
      by (intro Legend_TypeError) simp
    then have "fst (init (fresh elem opts)) = Some TypeError"
      using that
      by (auto simp: init_def initLegend_def fresh_def Let_def split: prod.splits option.splits)
    with assms show False by simp
  qed
  show "init (fresh elem opts) =
     (let pc2 = (fresh elem opts)
                  \<lparr>element := HeaderNode (title opts) (titleJustify opts) #
                      (if showLegend opts then legendPlaced (elem @ [CanvasNode]) opts
                       else elem @ [CanvasNode]),
                   legend := (if showLegend opts then Some (legendItems opts) else None)\<rparr>
      in case initPieces pc2 of
           (Some err, pc3) \<Rightarrow> (Some err, pc3)
         | (None, pc3) \<Rightarrow>
             (None, pc3\<lparr>mousemove := True, mouseleave := True, prevPiece := None\<rparr>))"
  proof (cases "showLegend opts")
    case True
    from Legend_ok' [OF le [OF True], of "elem @ [CanvasNode]"] True
    show ?thesis
      by (simp add: init_def initLegend_def initHeader_def Header_def fresh_def Let_def)
  next
    case False
    then show ?thesis
      by (simp add: init_def initHeader_def Header_def fresh_def Let_def)
  qed
qed

lemma PieChart_accepts:
  assumes "PieChart elem opts = (None, pc)"
  shows "options pc = opts\<lparr>percentages := final_shares (percentages opts)\<rparr>"
    and "pieces pc = map (pieceAt (options pc)) [0 ..< length (percentages opts)]"
    and "legend pc = (if showLegend opts then Some (legendItems opts) else None)"
    and "showLegend opts \<Longrightarrow> length (labels opts) \<le> length (colors opts)"
    and "length (percentages opts) \<le> length (colors opts)"
    and "percentages opts \<noteq> []"
    and "prevPiece pc = None" and "effects pc = []"
    and "canvas pc = foldl (\<lambda>ctx i. draw (pieces pc ! i) ctx) []
                       [0 ..< length (percentages (options pc))]"
proof -
  define pc2 where "pc2 = (fresh elem opts)
                  \<lparr>element := HeaderNode (title opts) (titleJustify opts) #
                      (if showLegend opts then legendPlaced (elem @ [CanvasNode]) opts
                       else elem @ [CanvasNode]),
                   legend := (if showLegend opts then Some (legendItems opts) else None)\<rparr>"
  from assms have ok: "fst (init (fresh elem opts)) = None"
    by (auto simp: PieChart_def split: prod.splits option.splits)
  then have nt: "fst (init (fresh elem opts)) \<noteq> Some TypeError" by simp
  note ph = init_legend_phase [OF nt, folded pc2_def]
  show "showLegend opts \<Longrightarrow> length (labels opts) \<le> length (colors opts)" by (rule ph(2))
  obtain e pc3 where ip: "initPieces pc2 = (e, pc3)" by (cases "initPieces pc2")
  with ok ph(1) have e: "e = None" by (cases e) (simp_all add: Let_def)
  have pc: "pc = display (pc3\<lparr>mousemove := True, mouseleave := True, prevPiece := None\<rparr>)"
    using assms ph(1) ip e by (simp add: PieChart_def Let_def)
  have o2: "options pc2 = opts" "pieces pc2 = []" "effects pc2 = []" "canvas pc2 = []"
    by (simp_all add: pc2_def fresh_def)
  note acc = initPieces_accepts [OF ip [unfolded e], unfolded o2]
  have o3: "options pc3 = opts\<lparr>percentages := final_shares (percentages opts)\<rparr>"
    by (subst acc(1)) simp
  show "options pc = opts\<lparr>percentages := final_shares (percentages opts)\<rparr>"
    by (simp add: pc display_def o3)
  have p3: "pieces pc3 = map (pieceAt (options pc3)) [0 ..< length (percentages opts)]"
    by (subst acc(1)) simp
  show "pieces pc = map (pieceAt (options pc)) [0 ..< length (percentages opts)]"
    using p3 by (simp add: pc display_def)
  show "legend pc = (if showLegend opts then Some (legendItems opts) else None)"
    by (subst pc, subst acc(1)) (simp add: display_def pc2_def)
  show "length (percentages opts) \<le> length (colors opts)" by (rule acc(2))
  show "percentages opts \<noteq> []" by (rule acc(3))
  show "prevPiece pc = None" by (simp add: pc display_def)
  show "effects pc = []" by (subst pc, subst acc(1)) (simp add: display_def o2)
  show "canvas pc = foldl (\<lambda>ctx i. draw (pieces pc ! i) ctx) []
                       [0 ..< length (percentages (options pc))]"
  proof -
    have "canvas pc3 = []" by (subst acc(1)) (simp add: o2)
    then show ?thesis by (simp add: pc display_def)
  qed
qed

lemma length_final_shares [simp]: "length (final_shares percs) = length percs"
  by (simp add: final_shares_def)

lemma PieChart_not_enough:
  assumes "length (colors opts) < length (percentages opts)"
    and "showLegend opts \<longrightarrow> length (labels opts) \<le> length (colors opts)"
  shows "PieChart elem opts =
           (Some Not_enough_colors_given,
            (fresh elem opts)
              \<lparr>element := HeaderNode (title opts) (titleJustify opts) #
                  (if showLegend opts then legendPlaced (elem @ [CanvasNode]) opts
                   else elem @ [CanvasNode]),
               legend := (if showLegend opts then Some (legendItems opts) else None)\<rparr>)"
proof -
  define pc2 where "pc2 = (fresh elem opts)
                  \<lparr>element := HeaderNode (title opts) (titleJustify opts) #
                      (if showLegend opts then legendPlaced (elem @ [CanvasNode]) opts
                       else elem @ [CanvasNode]),
                   legend := (if showLegend opts then Some (legendItems opts) else None)\<rparr>"
  have o2: "options pc2 = opts" by (simp add: pc2_def fresh_def)
  have ip: "initPieces pc2 = (Some Not_enough_colors_given, pc2)"
    by (rule initPieces_not_enough) (simp add: o2 assms(1))
  have "init (fresh elem opts) = (Some Not_enough_colors_given, pc2)"
  proof (cases "showLegend opts")
    case True
    with assms(2) have "length (labels opts) \<le> length (colors opts)" by simp
    from Legend_ok' [OF this, of "elem @ [CanvasNode]"] True ip
    show ?thesis
      by (simp add: init_def initLegend_def initHeader_def Header_def fresh_def Let_def pc2_def)
  next
    case False
    with ip show ?thesis
      by (simp add: init_def initHeader_def Header_def fresh_def Let_def pc2_def)
  qed
  then show ?thesis by (simp add: PieChart_def pc2_def)
qed


lemma legendItems_found:
  assumes "i < length (labels opts)"
    and "\<forall>j. i < j \<and> j < length (labels opts) \<longrightarrow> legendKey opts j \<noteq> legendKey opts i"
  shows "item (legendItems opts) (legendKey opts i) = Some (entryAt (colors opts) (labels opts) i)"
  using assms itemsUpTo_found [of 0 i "length (labels opts)" "colors opts"]
  by (simp add: legendItems_def legendKey_def)



lemmas char_eval = lowerChar_def toLowerCase_def hexValue_def char_of_def bit_Suc_0_iff Let_def


lemma PieChart_as_given:
  assumes "showLegend opts \<longrightarrow> length (labels opts) \<le> length (colors opts)"
    and "length (percentages opts) \<le> length (colors opts)"
    and "percentages opts = [] \<or> last (percentages opts) \<noteq> 100"
    and "totalPerc (percentages opts) (length (percentages opts)) 0 = 100"
  shows "fst (PieChart elem opts) = None"
proof -
  define pc2 where "pc2 = (fresh elem opts)
                  \<lparr>element := HeaderNode (title opts) (titleJustify opts) #
                      (if showLegend opts then legendPlaced (elem @ [CanvasNode]) opts
                       else elem @ [CanvasNode]),
                   legend := (if showLegend opts then Some (legendItems opts) else None)\<rparr>"
  have o2: "options pc2 = opts" by (simp add: pc2_def fresh_def)
  have ip: "fst (initPieces pc2) = None"
    using initPieces_as_given [of pc2] assms(2-4) by (simp add: o2)
  have "fst (init (fresh elem opts)) = None"
  proof (cases "showLegend opts")
    case True
    with assms(1) have "length (labels opts) \<le> length (colors opts)" by simp
    from Legend_ok' [OF this, of "elem @ [CanvasNode]"] True ip
    show ?thesis
      by (auto simp: init_def initLegend_def initHeader_def Header_def fresh_def Let_def pc2_def
            split: prod.splits option.splits)
  next
    case False
    with ip show ?thesis
      by (auto simp: init_def initHeader_def Header_def fresh_def Let_def pc2_def
            split: prod.splits option.splits)
  qed
  then show ?thesis by (auto simp: PieChart_def split: prod.splits option.splits)
qed

section \<open>The pointer handlers\<close>

lemma pixelHex_bytes:
  "r \<le> 255 \<Longrightarrow> g \<le> 255 \<Longrightarrow> b \<le> 255 \<Longrightarrow> \<exists>hex. pixelHex (r, g, b, a) = Inr hex"
  by (simp add: pixelHex_def rgbToHex_def)

lemma onhover_with_legend:
  assumes "legend pc = Some lg"
    and "pixelUnder pg e = (r, g, b, a)"
    and "r \<le> 255" and "g \<le> 255" and "b \<le> 255"
  shows "fst (onhover pc pg e) = None"
proof -
  from pixelHex_bytes [OF assms(3-5)] obtain hex where "pixelHex (r, g, b, a) = Inr hex"
    by blast
  then show ?thesis
    using assms(1,2) by (simp add: onhover_def Let_def split: option.splits)
qed

lemma onhover_transparent:
  assumes "pixelUnder pg e = (r, g, b, 0)"
    and "r \<le> 255" and "g \<le> 255" and "b \<le> 255"
  shows "onhover pc pg e = (None, noPiece pc)"
proof -
  from pixelHex_bytes [OF assms(2-4)] obtain hex where "pixelHex (r, g, b, 0) = Inr hex"
    by blast
  then show ?thesis using assms(1) by (simp add: onhover_def Let_def)
qed

lemma resolve_SomeD:
  assumes "resolve lg p = Some entry"
  shows "\<exists>hex. pixelHex p = Inr hex \<and> snd (snd (snd p)) \<noteq> 0 \<and> item lg hex = Some entry"
  using assms by (auto simp: resolve_def split: sum.splits if_splits)

lemma onhover_resolved:
  assumes "legend pc = Some lg" and "resolve lg (pixelUnder pg e) = Some entry"
  shows "\<exists>hex. pixelHex (pixelUnder pg e) = Inr hex \<and>
     onhover pc pg e =
       (None,
        if prevPiece pc = Some (label entry)
        then pc\<lparr>currPiece := Some (label entry)\<rparr>
        else pc\<lparr>currPiece := Some (label entry), prevPiece := Some (label entry),
                effects := effects pc
                   @ (case prevPiece pc of None \<Rightarrow> [] | Some prev \<Rightarrow> [ClearEffects prev])
                   @ [AddEffects (label entry) hex]\<rparr>)"
proof -
  from resolve_SomeD [OF assms(2)] obtain hex where
    hex: "pixelHex (pixelUnder pg e) = Inr hex" and a: "snd (snd (snd (pixelUnder pg e))) \<noteq> 0"
    and it: "item lg hex = Some entry" by blast
  have "onhover pc pg e =
       (None,
        if prevPiece pc = Some (label entry)
        then pc\<lparr>currPiece := Some (label entry)\<rparr>
        else pc\<lparr>currPiece := Some (label entry), prevPiece := Some (label entry),
                effects := effects pc
                   @ (case prevPiece pc of None \<Rightarrow> [] | Some prev \<Rightarrow> [ClearEffects prev])
                   @ [AddEffects (label entry) hex]\<rparr>)"
    using assms(1) hex a it
    by (cases "prevPiece pc")
       (auto simp: onhover_def Let_def addEffects_def clearEffects_def)
  with hex show ?thesis by blast
qed

lemma highlights_append [simp]: "highlights (xs @ ys) = highlights xs @ highlights ys"
  by (simp add: highlights_def)

lemma highlights_simps [simp]:
  "highlights [] = []"
  "highlights (AddEffects l c # es) = AddEffects l c # highlights es"
  "highlights (ClearEffects l # es) = highlights es"
  by (simp_all add: highlights_def)

lemma leave_then_rehover:
  assumes "legend pc = Some lg"
    and "resolve lg (pixelUnder pg e) = Some entry"
    and "prevPiece pc \<noteq> Some (label entry)"
  shows "\<exists>hex. pixelHex (pixelUnder pg e) = Inr hex
     \<and> effects (snd (onhover (onmouseleave (snd (onhover pc pg e))) pg e))
         = effects pc
           @ (case prevPiece pc of None \<Rightarrow> [] | Some prev \<Rightarrow> [ClearEffects prev])
           @ [AddEffects (label entry) hex, ClearEffects (label entry)]"
proof -
  from onhover_resolved [OF assms(1,2)] assms(3) obtain hex where
    hex: "pixelHex (pixelUnder pg e) = Inr hex" and
    first: "onhover pc pg e =
       (None, pc\<lparr>currPiece := Some (label entry), prevPiece := Some (label entry),
                effects := effects pc
                   @ (case prevPiece pc of None \<Rightarrow> [] | Some prev \<Rightarrow> [ClearEffects prev])
                   @ [AddEffects (label entry) hex]\<rparr>)"
    by auto
  define pc2 where "pc2 = onmouseleave (snd (onhover pc pg e))"
  have l2: "legend pc2 = Some lg" and p2: "prevPiece pc2 = Some (label entry)"
    and e2: "effects pc2 = effects pc
           @ (case prevPiece pc of None \<Rightarrow> [] | Some prev \<Rightarrow> [ClearEffects prev])
           @ [AddEffects (label entry) hex, ClearEffects (label entry)]"
    using assms(1) by (simp_all add: pc2_def first onmouseleave_def clearEffects_def)
  from onhover_resolved [OF l2 assms(2)] p2
  have "onhover pc2 pg e = (None, pc2\<lparr>currPiece := Some (label entry)\<rparr>)" by auto
  then have "effects (snd (onhover pc2 pg e)) = effects pc2" by simp
  with hex e2 show ?thesis unfolding pc2_def by (intro exI [of _ hex]) simp
qed

lemma onhover_twice:
  assumes "legend pc = Some lg"
    and "resolve lg (pixelUnder pg1 e1) = Some entry"
    and "resolve lg (pixelUnder pg2 e2) = Some entry"
  shows "fst (onhover pc pg1 e1) = None
       \<and> prevPiece (snd (onhover pc pg1 e1)) = Some (label entry)
       \<and> length (highlights (effects (snd (onhover pc pg1 e1))))
           = length (highlights (effects pc))
             + (if prevPiece pc = Some (label entry) then 0 else 1)
       \<and> onhover (snd (onhover pc pg1 e1)) pg2 e2 = (None, snd (onhover pc pg1 e1))"
proof -
  from onhover_resolved [OF assms(1,2)] obtain hex where
    first: "onhover pc pg1 e1 =
       (None,
        if prevPiece pc = Some (label entry)
        then pc\<lparr>currPiece := Some (label entry)\<rparr>
        else pc\<lparr>currPiece := Some (label entry), prevPiece := Some (label entry),
                effects := effects pc
                   @ (case prevPiece pc of None \<Rightarrow> [] | Some prev \<Rightarrow> [ClearEffects prev])
                   @ [AddEffects (label entry) hex]\<rparr>)"
    by auto
  define pc1 where "pc1 = snd (onhover pc pg1 e1)"
  have l1: "legend pc1 = Some lg" and p1: "prevPiece pc1 = Some (label entry)"
    and c1: "currPiece pc1 = Some (label entry)"
    using assms(1) by (simp_all add: pc1_def first)
  from onhover_resolved [OF l1 assms(3)] p1
  have "onhover pc1 pg2 e2 = (None, pc1\<lparr>currPiece := Some (label entry)\<rparr>)" by auto
  also have "pc1\<lparr>currPiece := Some (label entry)\<rparr> = pc1"
    using c1 by (metis piechart.surjective piechart.update_convs(9) piechart.select_convs(9))
  finally have second: "onhover pc1 pg2 e2 = (None, pc1)" .
  have "length (highlights (effects pc1))
          = length (highlights (effects pc)) + (if prevPiece pc = Some (label entry) then 0 else 1)"
    by (cases "prevPiece pc") (simp_all add: pc1_def first)
  with second p1 show ?thesis by (simp add: pc1_def [symmetric]) (simp add: pc1_def first)
qed

lemma hover_then_leave_resolved:
  assumes "legend pc = Some lg"
    and "resolve lg (pixelUnder pg e) = Some entry"
    and "prevPiece pc \<noteq> Some (label entry)"
  shows "legend (hover_then_leave pc pg e) = Some lg"
    and "prevPiece (hover_then_leave pc pg e) = Some (label entry)"
    and "currPiece (hover_then_leave pc pg e) = Some (label entry)"
    and "\<exists>hex. effects (hover_then_leave pc pg e) = effects pc
           @ (case prevPiece pc of None \<Rightarrow> [] | Some prev \<Rightarrow> [ClearEffects prev])
           @ [AddEffects (label entry) hex, ClearEffects (label entry)]"
proof -
  from onhover_resolved [OF assms(1,2)] assms(3) obtain hex where
    first: "onhover pc pg e =
       (None, pc\<lparr>currPiece := Some (label entry), prevPiece := Some (label entry),
                effects := effects pc
                   @ (case prevPiece pc of None \<Rightarrow> [] | Some prev \<Rightarrow> [ClearEffects prev])
                   @ [AddEffects (label entry) hex]\<rparr>)"
    by auto
  show "legend (hover_then_leave pc pg e) = Some lg"
    "prevPiece (hover_then_leave pc pg e) = Some (label entry)"
    "currPiece (hover_then_leave pc pg e) = Some (label entry)"
    using assms(1)
    by (simp_all add: hover_then_leave_def first onmouseleave_def clearEffects_def)
  have "effects (hover_then_leave pc pg e) = effects pc
           @ (case prevPiece pc of None \<Rightarrow> [] | Some prev \<Rightarrow> [ClearEffects prev])
           @ [AddEffects (label entry) hex, ClearEffects (label entry)]"
    by (simp add: hover_then_leave_def first onmouseleave_def clearEffects_def)
  then show "\<exists>hex. effects (hover_then_leave pc pg e) = effects pc
           @ (case prevPiece pc of None \<Rightarrow> [] | Some prev \<Rightarrow> [ClearEffects prev])
           @ [AddEffects (label entry) hex, ClearEffects (label entry)]" ..
qed


section \<open>The charts tried\<close>

lemma default_chart_built: "fst (PieChart [] defaults) = None"
  by (rule PieChart_as_given) (simp_all add: defaults_def EASTER_def fadd_def numeral_2_eq_2)

lemma pixel_first_slice: "pixelUnder first_slice pointer = (247, 247, 177, 255)"
  by (simp add: pixelUnder_def first_slice_def)

lemma yes_no_simps:
  "length (labels yes_no) = 2" "showLegend yes_no"
  "colors yes_no ! 0 = ''#F7F7B1''" "labels yes_no ! 0 = ''yes''"
  "colors yes_no ! 1 = ''#BDDA5D''" "length (colors yes_no) = 10"
  "percentages yes_no = [75, 25]"
  by (simp_all add: yes_no_def defaults_def EASTER_def)

lemma yes_no_keys: "legendKey yes_no 1 \<noteq> legendKey yes_no 0"
  unfolding legendKey_def yes_no_simps by (simp add: char_eval)

lemma yes_no_first_key:
  "\<forall>j. 0 < j \<and> j < length (labels yes_no) \<longrightarrow> legendKey yes_no j \<noteq> legendKey yes_no 0"
proof (intro allI impI)
  fix j assume "0 < j \<and> j < length (labels yes_no)"
  then have "j = 1" by (simp add: yes_no_simps)
  with yes_no_keys show "legendKey yes_no j \<noteq> legendKey yes_no 0" by simp
qed

lemma yes_no_built: "fst (PieChart [] yes_no) = None"
  by (rule PieChart_as_given) (simp_all add: yes_no_simps fadd_def numeral_2_eq_2)

lemma yes_no_first_pixel: "fillPixel (colors yes_no ! 0) = Some (247, 247, 177, 255)"
  unfolding yes_no_simps by (simp add: char_eval)

lemma yes_no_resolves:
  "resolve (legendItems yes_no) (247, 247, 177, 255)
     = Some (entryAt (colors yes_no) (labels yes_no) 0)"
proof -
  have "pixelHex (247, 247, 177, 255) = Inr (legendKey yes_no 0)"
    using pixelHex_fillPixel [OF yes_no_first_pixel] by (simp add: legendKey_def)
  moreover have "item (legendItems yes_no) (legendKey yes_no 0)
                   = Some (entryAt (colors yes_no) (labels yes_no) 0)"
    by (rule legendItems_found) (simp_all add: yes_no_simps yes_no_first_key)
  ultimately show ?thesis by (simp add: resolve_def)
qed



lemma three_of_two_simps:
  "length (colors three_of_two) = 2" "length (percentages three_of_two) = 3"
  "length (labels three_of_two) = 2" "showLegend three_of_two"
  "title three_of_two = ''Chart''" "titleJustify three_of_two = ''left''"
  by (simp_all add: three_of_two_def defaults_def)

lemma three_of_two_legend:
  "legendPlaced [CanvasNode] three_of_two =
     [CanvasNode,
      LegendNode [\<lparr>node_id = 0, caption = ''a'', swatch = Some ''#ff0000''\<rparr>,
                  \<lparr>node_id = 1, caption = ''b'', swatch = Some ''#00ff00''\<rparr>]]"
  by (simp add: legendPlaced_def labelAt_def three_of_two_def defaults_def upt_rec_numeral)

lemma two_slices_one_label_simps:
  "percentages two_slices_one_label = [100, 0]" "showLegend two_slices_one_label"
  "length (labels two_slices_one_label) = 1" "length (colors two_slices_one_label) = 2"
  "colors two_slices_one_label ! Suc 0 = ''#00ff00''"
  by (simp_all add: two_slices_one_label_def defaults_def)

lemma two_slices_one_label_built: "fst (PieChart [] two_slices_one_label) = None"
  by (rule PieChart_as_given) (simp_all add: two_slices_one_label_simps fadd_def numeral_2_eq_2)

lemma two_slices_one_label_missed:
  "item (legendItems two_slices_one_label) ''#00ff00'' = None"
  by (simp add: legendItems_def itemsUpTo_def two_slices_one_label_def defaults_def char_eval)

lemma with_zero_simps:
  "percentages with_zero = [100, 0]" "showLegend with_zero"
  "length (labels with_zero) = 2" "length (colors with_zero) = 10"
  "colors with_zero ! 1 = ''#BDDA5D''" "labels with_zero ! 1 = []"
  by (simp_all add: with_zero_def defaults_def EASTER_def)

lemma with_zero_built: "fst (PieChart [] with_zero) = None"
  by (rule PieChart_as_given) (simp_all add: with_zero_simps fadd_def numeral_2_eq_2)

lemma runningFraction_100_0:
  "runningFraction [100, 0] 0 = 0" "runningFraction [100, 0] (Suc 0) = 1"
  "runningFraction [100, 0] 2 = 1" "runningFraction [100, 0] (Suc (Suc 0)) = 1"
  by (simp_all add: runningFraction_def fadd_def fdiv_def numeral_2_eq_2)


section \<open>The claims\<close>

subsection \<open>Normalising the percentages\<close>

text \<open>
  Claim C5, as the code has it. The percentages are not normalised by a pure function:
  \<open>initPieces\<close> writes the shares into the array it was given, which is the caller's
  (\<open>$.extend\<close> copies the reference). The array is left as it was when its last element
  is not 100; when the last element is 100 and the running total never decreases (and
  there are enough colours to get that far), the array ends up holding the successive
  differences.
\<close>

theorem percentages_rewritten_in_place:
  assumes "percentages (options pc) = percs"
  shows "(percs = [] \<or> last percs \<noteq> 100 \<longrightarrow>
            percentages (options (snd (initPieces pc))) = percs)
       \<and> (percs \<noteq> [] \<and> last percs = 100 \<and> sorted (0 # percs)
            \<and> length percs \<le> length (colors (options pc)) \<longrightarrow>
            percentages (options (snd (initPieces pc))) = successive_differences 0 percs)"
proof (intro conjI impI)
  assume "percs = [] \<or> last percs \<noteq> 100"
  with assms show "percentages (options (snd (initPieces pc))) = percs"
    by (auto simp: initPieces_def Let_def)
next
  assume "percs \<noteq> [] \<and> last percs = 100 \<and> sorted (0 # percs)
            \<and> length percs \<le> length (colors (options pc))"
  with assms initPieces_running_sorted [of pc]
  show "percentages (options (snd (initPieces pc))) = successive_differences 0 percs"
    by (simp add: Let_def)
qed

text \<open>The theorem at \<open>[75, 25]\<close>, left alone, and at \<open>[25, 75, 100]\<close>, overwritten.\<close>

theorem percentages_rewritten_in_place_witness:
  "percentages (options (chart_of [75, 25])) = [75, 25]
   \<and> last [75, 25 :: number] \<noteq> 100
   \<and> percentages (options (snd (initPieces (chart_of [75, 25])))) = [75, 25]
   \<and> percentages (options (chart_of [25, 75, 100])) = [25, 75, 100]
   \<and> last [25, 75, 100 :: number] = 100 \<and> sorted [0, 25, 75, 100 :: number]
   \<and> percentages (options (snd (initPieces (chart_of [25, 75, 100])))) = [25, 50, 25]"
  using percentages_rewritten_in_place [of "chart_of [75, 25]" "[75, 25]"]
    percentages_rewritten_in_place [of "chart_of [25, 75, 100]" "[25, 75, 100]"]
  by (simp add: chart_of_simps fsub_def)

text \<open>
  Claim C5 as stated fails: the caller's running total \<open>[75, 100]\<close> reads
  \<open>[75, 25]\<close> after \<open>initPieces\<close>.
\<close>

theorem percentages_unchanged_counterexample:
  "percentages (options (chart_of [75, 100])) = [75, 100]
   \<and> percentages (options (snd (initPieces (chart_of [75, 100])))) = [75, 25]"
  using initPieces_running_sorted [of "chart_of [75, 100]"]
  by (simp add: chart_of_simps fsub_def Let_def)

text \<open>
  Claim C6, as the code has it. A sequence whose last element is 100 is read as a running
  total. If it never decreases, starting from 0, the array holds the successive
  differences afterwards, \<open>share[i] = total[i] - total[i-1]\<close> with \<open>total[-1] = 0\<close>, and
  \<open>initPieces\<close> goes on without throwing exactly when these differences, added up from the
  last to the first, give 100; they always do when the totals are integers. If the
  sequence decreases somewhere, at its first element below 0 or at a later one below its
  predecessor, \<open>initPieces\<close> throws \<open>"Invalid percentage values"\<close>.
\<close>

theorem running_total_becomes_shares:
  assumes "percentages (options pc) = totals"
    and "totals \<noteq> []" and "last totals = 100"
    and "length totals \<le> length (colors (options pc))"
  shows "(sorted (0 # totals) \<longrightarrow>
            percentages (options (snd (initPieces pc))) = successive_differences 0 totals
            \<and> (fst (initPieces pc) = None \<longleftrightarrow>
                 totalPerc (successive_differences 0 totals) (length totals) 0 = 100))
       \<and> (sorted (0 # totals) \<and> set totals \<subseteq> \<int> \<longrightarrow> fst (initPieces pc) = None)
       \<and> (\<not> sorted (0 # totals) \<longrightarrow> fst (initPieces pc) = Some Invalid_percentage_values)
       \<and> (\<not> sorted totals \<longrightarrow> fst (initPieces pc) = Some Invalid_percentage_values)"
proof -
  have a: "percentages (options (snd (initPieces pc))) = successive_differences 0 totals
           \<and> (fst (initPieces pc) = None \<longleftrightarrow>
                 totalPerc (successive_differences 0 totals) (length totals) 0 = 100)"
    if "sorted (0 # totals)"
    using initPieces_running_sorted [of pc] assms that by (simp add: Let_def)
  have b: "fst (initPieces pc) = None" if "sorted (0 # totals)" "set totals \<subseteq> \<int>"
    using a [OF that(1)] integer_total_sums [OF that assms(2,3)] by simp
  have c: "fst (initPieces pc) = Some Invalid_percentage_values" if "\<not> sorted (0 # totals)"
    using assms that by (simp add: initPieces_running_unsorted)
  have d: "fst (initPieces pc) = Some Invalid_percentage_values" if "\<not> sorted totals"
  proof -
    from that have "\<not> sorted (0 # totals)" by auto
    then show ?thesis by (rule c)
  qed
  from a b c d show ?thesis by blast
qed

text \<open>
  The theorem at the running totals of the specification: \<open>[75, 100]\<close> is accepted and
  becomes \<open>[75, 25]\<close>, \<open>[25, 75, 100]\<close> is accepted and becomes \<open>[25, 50, 25]\<close>, and
  \<open>[75, 50, 100]\<close> is refused.
\<close>

theorem running_total_becomes_shares_witness:
  "percentages (options (chart_of [75, 100])) = [75, 100]
   \<and> [75, 100 :: number] \<noteq> [] \<and> last [75, 100 :: number] = 100
   \<and> length [75, 100 :: number] \<le> length (colors (options (chart_of [75, 100])))
   \<and> sorted [0, 75, 100 :: number] \<and> set [75, 100 :: number] \<subseteq> \<int>
   \<and> fst (initPieces (chart_of [75, 100])) = None
   \<and> percentages (options (snd (initPieces (chart_of [75, 100])))) = [75, 25]
   \<and> fst (initPieces (chart_of [25, 75, 100])) = None
   \<and> percentages (options (snd (initPieces (chart_of [25, 75, 100])))) = [25, 50, 25]
   \<and> \<not> sorted [75, 50, 100 :: number]
   \<and> fst (initPieces (chart_of [75, 50, 100])) = Some Invalid_percentage_values"
  using running_total_becomes_shares [of "chart_of [75, 100]" "[75, 100]"]
    running_total_becomes_shares [of "chart_of [25, 75, 100]" "[25, 75, 100]"]
    running_total_becomes_shares [of "chart_of [75, 50, 100]" "[75, 50, 100]"]
  by (simp add: chart_of_simps fsub_def)

text \<open>
  Claim C6 as stated fails: the running total \<open>[10.1, 10.2, 100]\<close>, written here as the
  binary64 values it denotes, never decreases, and is refused with
  \<open>"Invalid percentage values"\<close>: its differences add up to \<open>99.99999999999999\<close>.
\<close>

theorem running_total_refused_counterexample:
  "sorted [0, 5685794529555251 / 562949953421312, 2871044762448691 / 281474976710656,
           100 :: number]
   \<and> fl (5685794529555251 / 562949953421312) = 5685794529555251 / 562949953421312
   \<and> fl (2871044762448691 / 281474976710656) = 2871044762448691 / 281474976710656
   \<and> fst (initPieces (chart_of [5685794529555251 / 562949953421312,
                                  2871044762448691 / 281474976710656, 100]))
       = Some Invalid_percentage_values
   \<and> totalPerc (successive_differences 0 [5685794529555251 / 562949953421312,
                                            2871044762448691 / 281474976710656, 100]) 3 0
       = 7036874417766399 / 70368744177664"
  by code_simp

text \<open>
  Claim C7, as the code has it. With enough colours, \<open>initPieces\<close> throws
  \<open>"Invalid percentage values"\<close> exactly when the running total decreases somewhere or the
  sum of the final shares, added up from the last to the first as the code does, is not
  100. When it does not throw, the array holds the final shares, as many as were given
  and in the same positions, and their sum is 100.
\<close>

theorem invalid_percentage_iff:
  assumes "percentages (options pc) = percs"
    and "length percs \<le> length (colors (options pc))"
  shows "(fst (initPieces pc) = Some Invalid_percentage_values \<longleftrightarrow>
            (percs \<noteq> [] \<and> last percs = 100 \<and> \<not> sorted (0 # percs))
            \<or> totalPerc (final_shares percs) (length percs) 0 \<noteq> 100)
       \<and> (fst (initPieces pc) = None \<longrightarrow>
            percentages (options (snd (initPieces pc))) = final_shares percs
            \<and> length (final_shares percs) = length percs
            \<and> totalPerc (final_shares percs) (length percs) 0 = 100)"
proof (cases "percs \<noteq> [] \<and> last percs = 100")
  case False
  then have fs: "final_shares percs = percs" by (auto simp: final_shares_def)
  from False assms have "initPieces pc =
           (if totalPerc percs (length percs) 0 \<noteq> 100
            then (Some Invalid_percentage_values, pc)
            else (None, pc\<lparr>pieces := newPieces (options pc) 0 0 (pieces pc)\<rparr>))"
    using initPieces_as_given [of pc] by auto
  then show ?thesis using False assms(1) by (auto simp: fs)
next
  case True
  then have fs: "final_shares percs = successive_differences 0 percs"
    by (simp add: final_shares_def)
  show ?thesis
  proof (cases "sorted (0 # percs)")
    case srt: True
    from initPieces_running_sorted [of pc] True srt assms
    show ?thesis by (auto simp: fs Let_def)
  next
    case False
    from initPieces_running_unsorted [of pc] True False assms
    have "fst (initPieces pc) = Some Invalid_percentage_values" by simp
    then show ?thesis using True False by simp
  qed
qed

text \<open>The theorem at \<open>[75, 25]\<close>, accepted, and at \<open>[60, 30]\<close>, refused for its sum of 90.\<close>

theorem invalid_percentage_iff_witness:
  "percentages (options (chart_of [75, 25])) = [75, 25]
   \<and> length [75, 25 :: number] \<le> length (colors (options (chart_of [75, 25])))
   \<and> fst (initPieces (chart_of [75, 25])) = None
   \<and> percentages (options (snd (initPieces (chart_of [75, 25])))) = [75, 25]
   \<and> totalPerc [75, 25] 2 0 = 100
   \<and> totalPerc [60, 30] 2 0 = 90
   \<and> fst (initPieces (chart_of [60, 30])) = Some Invalid_percentage_values"
  using invalid_percentage_iff [of "chart_of [75, 25]" "[75, 25]"]
    invalid_percentage_iff [of "chart_of [60, 30]" "[60, 30]"]
    initPieces_outcome [of "chart_of [75, 25]"]
  by (simp add: chart_of_simps final_shares_def fadd_def numeral_2_eq_2)

text \<open>
  Claim C7 as stated fails: \<open>[75, 50, 100]\<close> is refused with
  \<open>"Invalid percentage values"\<close> although its successive differences add up to 100.
\<close>

theorem invalid_percentage_counterexample:
  "fst (initPieces (chart_of [75, 50, 100])) = Some Invalid_percentage_values
   \<and> final_shares [75, 50, 100] = [75, - 25, 50]
   \<and> totalPerc [75, - 25, 50] 3 0 = 100"
  using initPieces_running_unsorted [of "chart_of [75, 50, 100]"]
  by (simp add: chart_of_simps final_shares_def fadd_def fsub_def numeral_3_eq_3)

subsection \<open>The spans\<close>




text \<open>
  Claim C10, as the code has it. In a chart that was built, a share of zero at position
  \<open>i\<close> has its piece at position \<open>i\<close>, in the colour of that position, whose span
  starts at the running fraction of the shares before it and ends where it starts. The
  legend holds an entry for it under its colour key when the legend is shown, there is a
  label at position \<open>i\<close> (the legend has one entry per label, not per share) and no
  later label has the same colour key.
\<close>

theorem zero_share_kept:
  assumes "PieChart elem opts = (None, pc)"
    and "i < length (percentages (options pc))"
    and "percentages (options pc) ! i = 0"
  shows "length (pieces pc) = length (percentages (options pc))
       \<and> color (pieces pc ! i) = colors opts ! i
       \<and> start (radians (pieces pc ! i)) = runningFraction (percentages (options pc)) i
       \<and> endp (radians (pieces pc ! i)) = start (radians (pieces pc ! i))
       \<and> (showLegend opts \<and> i < length (labels opts)
            \<and> (\<forall>j. i < j \<and> j < length (labels opts) \<longrightarrow> legendKey opts j \<noteq> legendKey opts i)
           \<longrightarrow> map_option (\<lambda>lg. item lg (legendKey opts i)) (legend pc)
                 = Some (Some (entryAt (colors opts) (labels opts) i)))"
proof -
  note acc = PieChart_accepts [OF assms(1)]
  have n: "length (percentages (options pc)) = length (percentages opts)"
    by (simp add: acc(1))
  have i: "i < length (percentages opts)" using assms(2) n by simp
  have c: "colors (options pc) = colors opts" by (simp add: acc(1))
  have "runningFraction (percentages (options pc)) (Suc i)
          = runningFraction (percentages (options pc)) i"
    using assms(2,3) by (rule runningFraction_zero_share)
  then show ?thesis
    using i by (auto simp: acc(2,3) n c pieceAt_radians legendItems_found)
qed

text \<open>
  The theorem at the shares \<open>[100, 0]\<close> with the two default labels: the second span
  runs from 1 to 1, and the legend holds the second label under \<open>#bdda5d\<close>.
\<close>

theorem zero_share_kept_witness:
  "PieChart [] with_zero = (None, snd (PieChart [] with_zero))
   \<and> percentages (options (snd (PieChart [] with_zero))) = [100, 0]
   \<and> showLegend with_zero \<and> length (labels with_zero) = 2
   \<and> legendKey with_zero 1 = ''#bdda5d''
   \<and> map radians (pieces (snd (PieChart [] with_zero)))
       = [\<lparr>start = 0, endp = 1\<rparr>, \<lparr>start = 1, endp = 1\<rparr>]
   \<and> map_option (\<lambda>lg. map_option (\<lambda>e. node_id (label e)) (item lg ''#bdda5d''))
         (legend (snd (PieChart [] with_zero))) = Some (Some 1)"
proof -
  have h: "PieChart [] with_zero = (None, snd (PieChart [] with_zero))"
    using with_zero_built by (metis prod.collapse)
  note acc = PieChart_accepts [OF h]
  have p: "percentages (options (snd (PieChart [] with_zero))) = [100, 0]"
    by (simp add: acc(1) with_zero_simps final_shares_def)
  have k: "legendKey with_zero 1 = ''#bdda5d''"
    unfolding legendKey_def with_zero_simps by (simp add: char_eval)
  have r: "map radians (pieces (snd (PieChart [] with_zero)))
       = [\<lparr>start = 0, endp = 1\<rparr>, \<lparr>start = 1, endp = 1\<rparr>]"
    by (simp add: acc(2) with_zero_simps upt_rec_numeral pieceAt_def p runningFraction_100_0)
  have d: "\<forall>j. 1 < j \<and> j < length (labels with_zero) \<longrightarrow>
             legendKey with_zero j \<noteq> legendKey with_zero 1"
    by (auto simp: with_zero_simps)
  from zero_share_kept [OF h, of 1] p d
  have "map_option (\<lambda>lg. item lg (legendKey with_zero 1)) (legend (snd (PieChart [] with_zero)))
          = Some (Some (entryAt (colors with_zero) (labels with_zero) 1))"
    by (simp add: with_zero_simps)
  then have "map_option (\<lambda>lg. map_option (\<lambda>e. node_id (label e)) (item lg ''#bdda5d''))
         (legend (snd (PieChart [] with_zero))) = Some (Some 1)"
    unfolding k by (auto simp: entryAt_def labelAt_def)
  with h p k r show ?thesis by (simp add: with_zero_simps)
qed

text \<open>
  Claim C10 as stated fails: with the shares \<open>[100, 0]\<close>, two colours and one label,
  the chart is built and the legend holds nothing under the colour of the second piece.
\<close>

theorem zero_share_legend_counterexample:
  "fst (PieChart [] two_slices_one_label) = None
   \<and> percentages (options (snd (PieChart [] two_slices_one_label))) = [100, 0]
   \<and> color (pieces (snd (PieChart [] two_slices_one_label)) ! 1) = ''#00ff00''
   \<and> map_option (\<lambda>lg. item lg ''#00ff00'') (legend (snd (PieChart [] two_slices_one_label)))
       = Some None"
proof -
  have h: "PieChart [] two_slices_one_label = (None, snd (PieChart [] two_slices_one_label))"
    using two_slices_one_label_built by (metis prod.collapse)
  note acc = PieChart_accepts [OF h]
  have p: "percentages (options (snd (PieChart [] two_slices_one_label))) = [100, 0]"
    by (simp add: acc(1) two_slices_one_label_simps final_shares_def)
  have c: "color (pieces (snd (PieChart [] two_slices_one_label)) ! 1) = ''#00ff00''"
    by (simp add: acc(2) acc(1) two_slices_one_label_simps pieceAt_def)
  from two_slices_one_label_built p c show ?thesis
    by (simp add: acc(3) two_slices_one_label_simps two_slices_one_label_missed)
qed

subsection \<open>The legend\<close>




subsection \<open>Construction\<close>

text \<open>
  Claim C4, as the code has it. With fewer colours than percentages, and a legend that
  is off or has no more labels than colours, the constructor throws
  \<open>"Not enough colors given."\<close>; no piece is made, nothing is drawn and no handler is
  bound, but the container has by then received the canvas, the legend if it is shown,
  and the header.
\<close>

theorem not_enough_colors_leaves_partial_chart:
  assumes "length (colors opts) < length (percentages opts)"
    and "showLegend opts \<longrightarrow> length (labels opts) \<le> length (colors opts)"
  shows "fst (PieChart elem opts) = Some Not_enough_colors_given
       \<and> pieces (snd (PieChart elem opts)) = []
       \<and> canvas (snd (PieChart elem opts)) = []
       \<and> \<not> mousemove (snd (PieChart elem opts))
       \<and> \<not> mouseleave (snd (PieChart elem opts))
       \<and> options (snd (PieChart elem opts)) = opts
       \<and> element (snd (PieChart elem opts)) =
           HeaderNode (title opts) (titleJustify opts) #
             (if showLegend opts then legendPlaced (elem @ [CanvasNode]) opts
              else elem @ [CanvasNode])"
  by (simp add: PieChart_not_enough [OF assms] fresh_def)

text \<open>The theorem at three percentages, two colours and two labels, with the legend shown.\<close>

theorem not_enough_colors_leaves_partial_chart_witness:
  "length (colors three_of_two) < length (percentages three_of_two)
   \<and> showLegend three_of_two
   \<and> length (labels three_of_two) \<le> length (colors three_of_two)
   \<and> fst (PieChart [] three_of_two) = Some Not_enough_colors_given
   \<and> pieces (snd (PieChart [] three_of_two)) = []
   \<and> canvas (snd (PieChart [] three_of_two)) = []
   \<and> element (snd (PieChart [] three_of_two)) =
       [HeaderNode ''Chart'' ''left'', CanvasNode,
        LegendNode [\<lparr>node_id = 0, caption = ''a'', swatch = Some ''#ff0000''\<rparr>,
                    \<lparr>node_id = 1, caption = ''b'', swatch = Some ''#00ff00''\<rparr>]]"
  using not_enough_colors_leaves_partial_chart [of three_of_two "[]"]
  by (simp add: three_of_two_simps three_of_two_legend)

text \<open>
  Claim C4 as stated fails: with three percentages and two colours the constructor
  throws, and the container, empty before, holds a header and a canvas.
\<close>

theorem atomic_abort_counterexample:
  "length (percentages three_of_two_plain) = 3
   \<and> length (colors three_of_two_plain) = 2
   \<and> fst (PieChart [] three_of_two_plain) = Some Not_enough_colors_given
   \<and> element (snd (PieChart [] three_of_two_plain)) = [HeaderNode '''' ''left'', CanvasNode]"
proof -
  have "length (colors three_of_two_plain) < length (percentages three_of_two_plain)"
    and "showLegend three_of_two_plain \<longrightarrow>
           length (labels three_of_two_plain) \<le> length (colors three_of_two_plain)"
    by (simp_all add: three_of_two_plain_def defaults_def)
  from PieChart_not_enough [OF this, of "[]"] show ?thesis
    by (simp add: three_of_two_plain_def defaults_def fresh_def)
qed

subsection \<open>The pointer\<close>

text \<open>
  Claim C2 fails on the code: the mousemove handler is bound whether or not there is a
  legend, and reads \<open>piechart.legend.item\<close> whenever the pixel is not transparent. On a
  chart without a legend, a pixel of any colour with a nonzero alpha makes it throw a
  \<open>TypeError\<close>, and the state is left as it was.
\<close>

theorem hover_without_legend_throws:
  assumes "legend pc = None"
    and "pixelUnder pg e = (r, g, b, a)"
    and "r \<le> 255" and "g \<le> 255" and "b \<le> 255" and "a \<noteq> 0"
  shows "onhover pc pg e = (Some TypeError, pc)"
proof -
  from pixelHex_bytes [OF assms(3-5)] obtain hex where "pixelHex (r, g, b, a) = Inr hex"
    by blast
  then show ?thesis using assms(1,2,6) by (simp add: onhover_def Let_def)
qed

text \<open>
  The theorem at the default settings, where \<open>showLegend\<close> is false, with the pointer
  on the first slice.
\<close>

theorem hover_without_legend_throws_witness:
  "legend (snd (PieChart [] defaults)) = None
   \<and> pixelUnder first_slice pointer = (247, 247, 177, 255)
   \<and> (247::nat) \<le> 255 \<and> (177::nat) \<le> 255 \<and> (255::nat) \<noteq> 0
   \<and> fst (PieChart [] defaults) = None
   \<and> \<not> showLegend defaults
   \<and> onhover (snd (PieChart [] defaults)) first_slice pointer
        = (Some TypeError, snd (PieChart [] defaults))"
proof -
  have h: "PieChart [] defaults = (None, snd (PieChart [] defaults))"
    using default_chart_built by (metis prod.collapse)
  have s: "\<not> showLegend defaults" by (simp add: defaults_def)
  have l: "legend (snd (PieChart [] defaults)) = None"
    using PieChart_accepts(3) [OF h] s by simp
  from hover_without_legend_throws [OF l pixel_first_slice] l pixel_first_slice
    default_chart_built s
  show ?thesis by simp
qed

text \<open>
  Claim C3 fails on the code: \<open>onmouseleave\<close> clears the effects of the highlighted
  label and does nothing when there is none, but it leaves \<open>prevPiece\<close> as it was, so the
  chart still counts the label as highlighted (see \<open>leave_then_rehover\<close>).
\<close>

theorem mouseleave_keeps_prevPiece:
  "prevPiece (onmouseleave pc) = prevPiece pc
   \<and> effects (onmouseleave pc) =
       effects pc @ (case prevPiece pc of None \<Rightarrow> [] | Some prev \<Rightarrow> [ClearEffects prev])"
  by (simp add: onmouseleave_def clearEffects_def split: option.splits)

text \<open>
  Claim C9 fails on the code, by the defect of claim C3. A move over a slice highlights
  its label, and the pointer leaving clears the effects but leaves \<open>prevPiece\<close> on that
  label. Two further moves that resolve to the same entry then find \<open>prevPiece\<close> equal
  to \<open>currPiece\<close>: neither throws, and neither calls \<open>addEffects\<close>, so the label under
  the pointer stays without its highlight.
\<close>

theorem rehover_after_leave_highlights_nothing:
  assumes "legend pc = Some lg"
    and "resolve lg (pixelUnder pg0 e0) = Some entry"
    and "prevPiece pc \<noteq> Some (label entry)"
    and "resolve lg (pixelUnder pg1 e1) = Some entry"
    and "resolve lg (pixelUnder pg2 e2) = Some entry"
  shows "last (effects (hover_then_leave pc pg0 e0)) = ClearEffects (label entry)
       \<and> fst (onhover (hover_then_leave pc pg0 e0) pg1 e1) = None
       \<and> fst (onhover (snd (onhover (hover_then_leave pc pg0 e0) pg1 e1)) pg2 e2) = None
       \<and> effects (snd (onhover (snd (onhover (hover_then_leave pc pg0 e0) pg1 e1)) pg2 e2))
           = effects (hover_then_leave pc pg0 e0)"
proof -
  define pcL where "pcL = hover_then_leave pc pg0 e0"
  note htl = hover_then_leave_resolved [OF assms(1-3), folded pcL_def]
  from htl(4) have la: "last (effects pcL) = ClearEffects (label entry)" by auto
  from onhover_resolved [OF htl(1) assms(4)] htl(2)
  have first: "onhover pcL pg1 e1 = (None, pcL\<lparr>currPiece := Some (label entry)\<rparr>)" by auto
  define pc1 where "pc1 = pcL\<lparr>currPiece := Some (label entry)\<rparr>"
  have l1: "legend pc1 = Some lg" and p1: "prevPiece pc1 = Some (label entry)"
    and e1: "effects pc1 = effects pcL"
    using htl(1,2) by (simp_all add: pc1_def)
  from onhover_resolved [OF l1 assms(5)] p1
  have second: "onhover pc1 pg2 e2 = (None, pc1\<lparr>currPiece := Some (label entry)\<rparr>)" by auto
  from la first second e1 show ?thesis
    unfolding pcL_def [symmetric] by (simp add: pc1_def)
qed

text \<open>
  The theorem on a chart just built, with all three moves on the first slice: the
  effects are one \<open>addEffects\<close> and one \<open>clearEffects\<close> after the leave, and still so
  after the two moves.
\<close>

theorem rehover_after_leave_highlights_nothing_witness:
  "legend (snd (PieChart [] yes_no)) = Some (legendItems yes_no)
   \<and> pixelUnder first_slice pointer = (247, 247, 177, 255)
   \<and> resolve (legendItems yes_no) (247, 247, 177, 255)
       = Some (entryAt (colors yes_no) (labels yes_no) 0)
   \<and> prevPiece (snd (PieChart [] yes_no)) = None
   \<and> effects (hover_then_leave (snd (PieChart [] yes_no)) first_slice pointer)
       = [AddEffects (labelAt (colors yes_no) (labels yes_no) 0) ''#f7f7b1'',
          ClearEffects (labelAt (colors yes_no) (labels yes_no) 0)]
   \<and> effects (snd (onhover (snd (onhover
         (hover_then_leave (snd (PieChart [] yes_no)) first_slice pointer)
         first_slice pointer)) first_slice pointer))
       = [AddEffects (labelAt (colors yes_no) (labels yes_no) 0) ''#f7f7b1'',
          ClearEffects (labelAt (colors yes_no) (labels yes_no) 0)]"
proof -
  have h: "PieChart [] yes_no = (None, snd (PieChart [] yes_no))"
    using yes_no_built by (metis prod.collapse)
  note acc = PieChart_accepts [OF h]
  have l: "legend (snd (PieChart [] yes_no)) = Some (legendItems yes_no)"
    using acc(3) by (simp add: yes_no_simps)
  have r: "resolve (legendItems yes_no) (pixelUnder first_slice pointer)
             = Some (entryAt (colors yes_no) (labels yes_no) 0)"
    by (simp add: pixel_first_slice yes_no_resolves)
  have n: "prevPiece (snd (PieChart [] yes_no))
             \<noteq> Some (label (entryAt (colors yes_no) (labels yes_no) 0))"
    by (simp add: acc(7))
  have hex: "pixelHex (247, 247, 177, 255) = Inr ''#f7f7b1''"
    using pixelHex_fillPixel [OF yes_no_first_pixel] by (simp add: yes_no_simps char_eval)
  from onhover_resolved [OF l r] n hex
  have "effects (snd (onhover (snd (PieChart [] yes_no)) first_slice pointer))
          = [AddEffects (labelAt (colors yes_no) (labels yes_no) 0) ''#f7f7b1'']"
    by (auto simp: pixel_first_slice acc(7,8) entryAt_def)
  moreover have "prevPiece (snd (onhover (snd (PieChart [] yes_no)) first_slice pointer))
          = Some (labelAt (colors yes_no) (labels yes_no) 0)"
    using onhover_resolved [OF l r] n by (auto simp: entryAt_def)
  ultimately have e: "effects (hover_then_leave (snd (PieChart [] yes_no)) first_slice pointer)
       = [AddEffects (labelAt (colors yes_no) (labels yes_no) 0) ''#f7f7b1'',
          ClearEffects (labelAt (colors yes_no) (labels yes_no) 0)]"
    by (simp add: hover_then_leave_def onmouseleave_def clearEffects_def)
  from rehover_after_leave_highlights_nothing [OF l r n r r] l pixel_first_slice
    yes_no_resolves acc(7) e
  show ?thesis by simp
qed


end
